theory Spec2Isabelle
  imports Complex_Main
begin

section \<open>Python strings\<close>

text \<open>
  A Python \<^verbatim>\<open>str\<close> is a sequence of Unicode code points; a code point is a natural
  number. \<open>str\<close> turns a literal of the source, written in ASCII, into such a sequence.
\<close>

type_synonym codepoint = nat

type_synonym pystr = "codepoint list"

definition str :: "string \<Rightarrow> pystr" where
  "str s = map of_char s"

definition blank :: codepoint where
  "blank = 32"

text \<open>
  The character tables of the Python runtime that the scripts rely on are parameters of the
  model:
  \<^item> \<open>isspace\<close>: the white space of \<^verbatim>\<open>str.isspace\<close>, \<^verbatim>\<open>str.strip\<close> and the class
    \<^verbatim>\<open>\s\<close> of \<^verbatim>\<open>re\<close>;
  \<^item> \<open>isword\<close>: the class \<^verbatim>\<open>\w\<close> of \<^verbatim>\<open>re\<close> (alphanumeric characters and underscore),
    which also decides \<^verbatim>\<open>\b\<close>;
  \<^item> \<open>upper_of\<close>: the upper case of one character, as \<^verbatim>\<open>str.upper\<close> maps it; it can
    be several characters (sharp s becomes SS);
  \<^item> \<open>lower\<close>: \<^verbatim>\<open>str.lower\<close> of a whole string (it depends on context for the Greek
    final sigma, so it is not given per character).
\<close>

record chartable =
  isspace :: "codepoint \<Rightarrow> bool"
  isword :: "codepoint \<Rightarrow> bool"
  upper_of :: "codepoint \<Rightarrow> pystr"
  lower :: "pystr \<Rightarrow> pystr"

text \<open>The tables on ASCII: the code points below 128.\<close>

definition ascii_isspace :: "codepoint \<Rightarrow> bool" where
  "ascii_isspace c = ((9 \<le> c \<and> c \<le> 13) \<or> (28 \<le> c \<and> c \<le> 32))"

definition ascii_isword :: "codepoint \<Rightarrow> bool" where
  "ascii_isword c = ((48 \<le> c \<and> c \<le> 57) \<or> (65 \<le> c \<and> c \<le> 90) \<or> c = 95 \<or> (97 \<le> c \<and> c \<le> 122))"

definition ascii_upper :: "codepoint \<Rightarrow> codepoint" where
  "ascii_upper c = (if 97 \<le> c \<and> c \<le> 122 then c - 32 else c)"

definition ascii_lower :: "codepoint \<Rightarrow> codepoint" where
  "ascii_lower c = (if 65 \<le> c \<and> c \<le> 90 then c + 32 else c)"

text \<open>
  What the proofs use of the tables, and what Unicode's tables satisfy: no word character is
  white space; every character of an upper-cased character is its own upper case; on ASCII
  the tables are the ASCII ones.
\<close>

definition table_ok :: "chartable \<Rightarrow> bool" where
  "table_ok T =
     ((\<forall>c. isword T c \<longrightarrow> \<not> isspace T c)
      \<and> (\<forall>c. \<forall>d\<in>set (upper_of T c). upper_of T d = [d])
      \<and> (\<forall>c<128. isspace T c = ascii_isspace c \<and> isword T c = ascii_isword c
                  \<and> upper_of T c = [ascii_upper c]))"

text \<open>
  A concrete table for runs: on the code points below 256 (Latin-1) it is exactly Python's
  (0x85 and 0xA0 are white space, the accented letters are word characters and have upper
  cases, sharp s becomes SS, y with diaeresis and the micro sign leave Latin-1); above, a
  character is taken as a symbol without case. \<open>lower\<close> is the ASCII one.
\<close>

definition latin1_table :: chartable where
  "latin1_table =
     \<lparr>isspace = (\<lambda>c. ascii_isspace c \<or> c = 0x85 \<or> c = 0xA0),
      isword = (\<lambda>c. ascii_isword c \<or> c = 0xAA \<or> c = 0xB2 \<or> c = 0xB3 \<or> c = 0xB5 \<or> c = 0xB9
                     \<or> c = 0xBA \<or> c = 0xBC \<or> c = 0xBD \<or> c = 0xBE
                     \<or> (0xC0 \<le> c \<and> c \<le> 0xFF \<and> c \<noteq> 0xD7 \<and> c \<noteq> 0xF7)),
      upper_of = (\<lambda>c. if 97 \<le> c \<and> c \<le> 122 then [c - 32]
                       else if c = 0xB5 then [0x39C]
                       else if c = 0xDF then [83, 83]
                       else if c = 0xFF then [0x178]
                       else if 0xE0 \<le> c \<and> c \<le> 0xFE \<and> c \<noteq> 0xF7 then [c - 32]
                       else [c]),
      lower = map ascii_lower\<rparr>"

section \<open>Address normalizer (geocoding.py, enhanced\_clean)\<close>

text \<open>\<^verbatim>\<open>s.upper()\<close>: every character is replaced by its upper case.\<close>

definition upper :: "chartable \<Rightarrow> pystr \<Rightarrow> pystr" where
  "upper T s = concat (map (upper_of T) s)"

text \<open>\<^verbatim>\<open>s.strip()\<close>: white space is removed at both ends.\<close>

definition strip :: "chartable \<Rightarrow> pystr \<Rightarrow> pystr" where
  "strip T s = rev (dropWhile (isspace T) (rev (dropWhile (isspace T) s)))"

text \<open>\<^verbatim>\<open>re.sub(r'[,.\-#]', ' ', addr)\<close>: each of the four characters becomes a blank.\<close>

definition sub_punct :: "pystr \<Rightarrow> pystr" where
  "sub_punct s = map (\<lambda>c. if c \<in> set (str '',.-#'') then blank else c) s"

text \<open>
  \<^verbatim>\<open>re.sub(r'\bPAT\b', rep, addr)\<close> for a literal, non-empty \<open>PAT\<close>. The scan runs from
  left to right and \<open>prev\<close> says whether the character before the current position is a
  word character (False at the start of the string). \<^verbatim>\<open>\b\<close> holds at a position when
  exactly one of the characters before and after it is a word character. After a match
  the scan goes on behind the matched text; otherwise it moves on by one character.
\<close>

definition at_boundary :: "chartable \<Rightarrow> bool \<Rightarrow> pystr \<Rightarrow> bool" where
  "at_boundary T prev s = (prev \<noteq> (s \<noteq> [] \<and> isword T (hd s)))"

definition word_match :: "chartable \<Rightarrow> pystr \<Rightarrow> bool \<Rightarrow> pystr \<Rightarrow> bool" where
  "word_match T pat prev s =
     (pat \<noteq> [] \<and> at_boundary T prev s \<and> take (length pat) s = pat \<and>
      at_boundary T (isword T (last pat)) (drop (length pat) s))"

function sub_word :: "chartable \<Rightarrow> pystr \<Rightarrow> pystr \<Rightarrow> bool \<Rightarrow> pystr \<Rightarrow> pystr" where
  "sub_word T pat rep prev [] = []"
| "sub_word T pat rep prev (c # cs) =
     (if word_match T pat prev (c # cs)
      then rep @ sub_word T pat rep (isword T (last pat)) (drop (length pat) (c # cs))
      else c # sub_word T pat rep (isword T c) cs)"
  by pat_completeness auto
termination
  by (relation "measure (\<lambda>(T, pat, rep, prev, s). length s)") (auto simp: word_match_def)

text \<open>\<^verbatim>\<open>re.sub(r'\s+', ' ', addr)\<close>: every maximal run of white space becomes one blank.\<close>

function sub_spaces :: "chartable \<Rightarrow> pystr \<Rightarrow> pystr" where
  "sub_spaces T [] = []"
| "sub_spaces T (c # cs) =
     (if isspace T c then blank # sub_spaces T (dropWhile (isspace T) cs)
      else c # sub_spaces T cs)"
  by pat_completeness auto
termination
  by (relation "measure (\<lambda>(T, s). length s)") (auto simp: length_dropWhile_le less_Suc_eq_le)

text \<open>The dictionary \<^verbatim>\<open>replacements\<close>, in its insertion order.\<close>

definition replacements :: "(pystr \<times> pystr) list" where
  "replacements =
     [(str ''STREET'', str ''ST''), (str ''AVENUE'', str ''AVE''), (str ''ROAD'', str ''RD''),
      (str ''DRIVE'', str ''DR''), (str ''LANE'', str ''LN''), (str ''COURT'', str ''CT''),
      (str ''CIRCLE'', str ''CIR''), (str ''PLACE'', str ''PL'')]"

text \<open>
  \<^verbatim>\<open>enhanced_clean(addr)\<close>. A missing value (\<^verbatim>\<open>pd.isna\<close>) is \<open>None\<close> and yields the
  empty string.
\<close>

definition enhanced_clean :: "chartable \<Rightarrow> pystr option \<Rightarrow> pystr" where
  "enhanced_clean T addr =
     (case addr of
        None \<Rightarrow> []
      | Some a \<Rightarrow>
          (let addr1 = strip T (upper T a);
               addr2 = sub_punct addr1;
               addr3 = fold (\<lambda>(pattern, replacement) s. sub_word T pattern replacement False s)
                         replacements addr2
           in strip T (sub_spaces T addr3)))"

subsection \<open>Notions used in the proofs about the normalizer\<close>

text \<open>A non-empty string of word characters.\<close>

definition wordpat :: "chartable \<Rightarrow> pystr \<Rightarrow> bool" where
  "wordpat T p = (p \<noteq> [] \<and> (\<forall>c\<in>set p. isword T c))"

text \<open>The maximal runs of word characters of a string, from left to right.\<close>

function wordsof :: "chartable \<Rightarrow> pystr \<Rightarrow> pystr list" where
  "wordsof T [] = []"
| "wordsof T (c # cs) =
     (if isword T c then (c # takeWhile (isword T) cs) # wordsof T (dropWhile (isword T) cs)
      else wordsof T cs)"
  by pat_completeness auto
termination
  by (relation "measure (\<lambda>(T, s). length s)") (auto simp: length_dropWhile_le less_Suc_eq_le)

definition is_punct :: "codepoint \<Rightarrow> bool" where
  "is_punct c = (c \<in> set (str '',.-#''))"

text \<open>A character that neither upper-casing nor the punctuation step changes.\<close>

definition plain :: "chartable \<Rightarrow> codepoint \<Rightarrow> bool" where
  "plain T c = (upper_of T c = [c] \<and> \<not> is_punct c)"

text \<open>All white space is single blanks: each white-space character is a blank and is not
  followed by white space.\<close>

fun spaces_ok :: "chartable \<Rightarrow> pystr \<Rightarrow> bool" where
  "spaces_ok T [] = True"
| "spaces_ok T (c # cs) =
     ((isspace T c \<longrightarrow> c = blank \<and> (cs = [] \<or> \<not> isspace T (hd cs))) \<and> spaces_ok T cs)"

section \<open>Exact-match geocoder (geocoding.py, ultra\_fast\_geocode\_county)\<close>

text \<open>
  A voter row with the columns the script reads. A missing cell (NaN) is \<open>None\<close>.
\<close>

record voter =
  voter_status_desc :: "pystr option"
  res_street_address :: "pystr option"
  party_cd :: "pystr option"

text \<open>A row of \<^verbatim>\<open>active_voters\<close> once the column \<^verbatim>\<open>clean_address\<close> is added.\<close>

record cleaned_voter =
  voter_row :: voter
  clean_address :: pystr

text \<open>
  \<^verbatim>\<open>voter_dict\<close>: the voter's row with the keys \<^verbatim>\<open>'x'\<close>, \<^verbatim>\<open>'y'\<close> and \<^verbatim>\<open>'matched'\<close>
  (fields \<open>row_x\<close>, \<open>row_y\<close>, \<open>matched\<close>).
\<close>

record matched_voter =
  source :: cleaned_voter
  row_x :: real
  row_y :: real
  matched :: bool

text \<open>A row of a GeoDataFrame of points, and the frame with its coordinate reference system.\<close>

record point_row =
  attrs :: matched_voter
  geometry :: "real \<times> real"

record geo_frame =
  rows :: "point_row list"
  crs :: string

text \<open>
  The reference addresses: a frame with column names, rows (a cell per column name,
  \<open>None\<close> when missing) and a point geometry per row.
\<close>

record address_row =
  cells :: "pystr \<Rightarrow> pystr option"
  addr_geometry :: "real \<times> real"

record address_frame =
  addr_columns :: "pystr list"
  addr_rows :: "address_row list"
  addr_crs :: string

text \<open>What the run prints under RESULTS.\<close>

record report =
  total_voters :: nat
  geocoded :: nat
  success_rate :: real

text \<open>
  The outcome of one call: the value returned (\<open>None\<close> for Python's None), the datasets
  written (directory, file name, content) and the printed results, if any.
\<close>

record geocode_result =
  returned :: "geo_frame option"
  written :: "(pystr \<times> pystr \<times> geo_frame) list"
  results :: "report option"

text \<open>\<^verbatim>\<open>sub in s\<close> on strings.\<close>

fun str_contains :: "pystr \<Rightarrow> pystr \<Rightarrow> bool" where
  "str_contains [] sub = (sub = [])"
| "str_contains (c # cs) sub = (take (length sub) (c # cs) = sub \<or> str_contains cs sub)"

text \<open>\<^verbatim>\<open>voters[voters['voter_status_desc'] == 'ACTIVE']\<close>, then the column
  \<^verbatim>\<open>clean_address\<close>.\<close>

definition active_voters :: "voter list \<Rightarrow> voter list" where
  "active_voters voters = filter (\<lambda>v. voter_status_desc v = Some (str ''ACTIVE'')) voters"

definition clean_voters :: "chartable \<Rightarrow> voter list \<Rightarrow> cleaned_voter list" where
  "clean_voters T vs =
     map (\<lambda>v. \<lparr>voter_row = v, clean_address = enhanced_clean T (res_street_address v)\<rparr>) vs"

definition addr_cols :: "chartable \<Rightarrow> address_frame \<Rightarrow> pystr list" where
  "addr_cols T addresses =
     filter (\<lambda>col. list_ex (\<lambda>x. str_contains (upper T col) x)
                     [str ''ADDR'', str ''STREET'', str ''FULL''])
       (addr_columns addresses)"

text \<open>
  The loop that fills \<^verbatim>\<open>addr_lookup\<close>, over the rows' clean address and geometry. The
  entry stores the point (its \<^verbatim>\<open>x\<close> and \<^verbatim>\<open>y\<close> are the two components).
\<close>

fun lookup_loop ::
  "(pystr \<rightharpoonup> real \<times> real) \<Rightarrow> (pystr \<times> real \<times> real) list \<Rightarrow> (pystr \<rightharpoonup> real \<times> real)" where
  "lookup_loop addr_lookup [] = addr_lookup"
| "lookup_loop addr_lookup ((clean_addr, g) # rest) =
     lookup_loop
       (if clean_addr \<noteq> [] \<and> addr_lookup clean_addr = None
        then addr_lookup(clean_addr \<mapsto> g) else addr_lookup)
       rest"

definition create_lookup ::
  "chartable \<Rightarrow> pystr \<Rightarrow> address_row list \<Rightarrow> (pystr \<rightharpoonup> real \<times> real)" where
  "create_lookup T addr_col rs =
     lookup_loop Map.empty
       (map (\<lambda>r. (enhanced_clean T (cells r addr_col), addr_geometry r)) rs)"

text \<open>The matching loop, with its two accumulators \<^verbatim>\<open>matches\<close> and \<^verbatim>\<open>matched_count\<close>.\<close>

fun match_loop ::
  "(pystr \<rightharpoonup> real \<times> real) \<Rightarrow> cleaned_voter list \<Rightarrow> matched_voter list \<times> nat
   \<Rightarrow> matched_voter list \<times> nat" where
  "match_loop addr_lookup [] acc = acc"
| "match_loop addr_lookup (v # rest) (matches, matched_count) =
     (case addr_lookup (clean_address v) of
        Some m \<Rightarrow>
          match_loop addr_lookup rest
            (matches @ [\<lparr>source = v, row_x = fst m, row_y = snd m, matched = True\<rparr>],
             matched_count + 1)
      | None \<Rightarrow> match_loop addr_lookup rest (matches, matched_count))"

text \<open>
  \<^verbatim>\<open>(matched_count / total_voters) * 100 if total_voters > 0 else 0\<close>. The division and
  the multiplication are floating-point operations: each gives the exact result rounded to
  a representable number. \<open>rnd\<close> is that rounding, a parameter of the model; with the
  identity for \<open>rnd\<close> the arithmetic is exact.
\<close>

definition rate :: "(real \<Rightarrow> real) \<Rightarrow> nat \<Rightarrow> nat \<Rightarrow> real" where
  "rate rnd matched_count n_total =
     (if n_total > 0 then rnd (rnd (real matched_count / real n_total) * 100) else 0)"

text \<open>
  What the proofs use of the rounding, and what rounding to the nearest representable
  number satisfies: it is monotone and leaves 0, 1 and 100 as they are.
\<close>

definition rounding_ok :: "(real \<Rightarrow> real) \<Rightarrow> bool" where
  "rounding_ok rnd = (mono rnd \<and> rnd 0 = 0 \<and> rnd 1 = 1 \<and> rnd 100 = 100)"

text \<open>
  The second half of the function, from "Match addresses instantly" on, for any lookup.
  \<open>to_crs\<close> stands for the geometry library's reprojection of a point from one reference
  system to another.
\<close>

definition geocode_with_lookup ::
  "chartable \<Rightarrow> (real \<Rightarrow> real) \<Rightarrow> (string \<Rightarrow> string \<Rightarrow> real \<times> real \<Rightarrow> real \<times> real) \<Rightarrow> pystr
   \<Rightarrow> voter list \<Rightarrow> (pystr \<rightharpoonup> real \<times> real) \<Rightarrow> string \<Rightarrow> pystr \<Rightarrow> geocode_result" where
  "geocode_with_lookup T rnd to_crs county_name voters addr_lookup addresses_crs output_dir =
     (let active = clean_voters T (active_voters voters);
          (matches, matched_count) = match_loop addr_lookup active ([], 0)
      in if matches \<noteq> [] then
           let voters_gdf = \<lparr>rows = map (\<lambda>m. \<lparr>attrs = m, geometry = (row_x m, row_y m)\<rparr>) matches,
                              crs = addresses_crs\<rparr>;
               voters_gdf = (if crs voters_gdf \<noteq> ''EPSG:2264''
                             then \<lparr>rows = map (\<lambda>r. r\<lparr>geometry := to_crs (crs voters_gdf)
                                                        ''EPSG:2264'' (geometry r)\<rparr>)
                                            (rows voters_gdf),
                                   crs = ''EPSG:2264''\<rparr>
                             else voters_gdf);
               output_file = (output_dir, lower T county_name @ str ''_voters_geocoded.gpkg'');
               n_total = length active
           in \<lparr>returned = Some voters_gdf,
               written = [(fst output_file, snd output_file, voters_gdf)],
               results = Some \<lparr>total_voters = n_total, geocoded = matched_count,
                                success_rate = rate rnd matched_count n_total\<rparr>\<rparr>
         else \<lparr>returned = None, written = [], results = None\<rparr>)"

text \<open>The whole function, on the loaded voter table and reference addresses.\<close>

definition ultra_fast_geocode_county ::
  "chartable \<Rightarrow> (real \<Rightarrow> real) \<Rightarrow> (string \<Rightarrow> string \<Rightarrow> real \<times> real \<Rightarrow> real \<times> real) \<Rightarrow> pystr
   \<Rightarrow> voter list \<Rightarrow> address_frame \<Rightarrow> pystr \<Rightarrow> geocode_result" where
  "ultra_fast_geocode_county T rnd to_crs county_name voters addresses output_dir =
     (if addr_cols T addresses = [] then \<lparr>returned = None, written = [], results = None\<rparr>
      else let addr_col = hd (addr_cols T addresses);
               addr_lookup = create_lookup T addr_col (addr_rows addresses)
           in geocode_with_lookup T rnd to_crs county_name voters addr_lookup
                (addr_crs addresses) output_dir)"

text \<open>The rows of the returned frame; none when nothing is returned.\<close>

definition returned_rows :: "geocode_result \<Rightarrow> point_row list" where
  "returned_rows out = (case returned out of None \<Rightarrow> [] | Some g \<Rightarrow> rows g)"

section \<open>Parcel spatial join (spatial\_joins.py, spatial\_join\_county)\<close>

text \<open>
  A parcel has a geometry of some type \<open>'g\<close> and its property value. The test whether a
  point lies within a parcel geometry, and the reprojections, belong to the geometry
  library and are parameters of the model (\<open>is_within\<close>, \<open>to_crs_point\<close>, \<open>to_crs_geom\<close>).
\<close>

record 'g parcel =
  parcel_geometry :: 'g
  parval :: "real option"

record 'g parcel_frame =
  parcels :: "'g parcel list"
  parcel_crs :: string

text \<open>
  A row of \<^verbatim>\<open>gpd.sjoin(voters, parcels, how='left', predicate='within')\<close>: the voter's
  row, the index of the parcel in \<^verbatim>\<open>index_right\<close> and the parcel's attributes, both
  null (\<open>None\<close>) when no parcel contains the point.
\<close>

record 'g sjoin_row =
  left_row :: point_row
  index_right :: "nat option"
  right_row :: "'g parcel option"

text \<open>A row of the result: \<^verbatim>\<open>county\<close> added, \<^verbatim>\<open>index_right\<close> dropped.\<close>

record 'g joined_row =
  joined_left :: point_row
  joined_right :: "'g parcel option"
  county :: pystr

datatype py_error = ZeroDivisionError

record 'g join_result =
  joined :: "'g joined_row list"
  join_written :: "(pystr \<times> pystr \<times> 'g joined_row list) list"
  successful_joins :: nat
  join_rate :: real

text \<open>
  Modelled from the spec: the point-in-polygon left join, which the script calls as
  \<^verbatim>\<open>gpd.sjoin(voters, parcels, how='left', predicate='within')\<close> and whose code
  belongs to the geometry library, not to the scripts. \<open>sjoin_hits\<close> is its inner loop
  for one voter: one row per parcel, in the parcels' order, that contains the voter's point;
  \<open>i\<close> is the index of the first parcel of the list.
\<close>

fun sjoin_hits ::
  "(real \<times> real \<Rightarrow> 'g \<Rightarrow> bool) \<Rightarrow> point_row \<Rightarrow> nat \<Rightarrow> 'g parcel list \<Rightarrow> 'g sjoin_row list" where
  "sjoin_hits is_within v i [] = []"
| "sjoin_hits is_within v i (p # ps) =
     (if is_within (geometry v) (parcel_geometry p)
      then \<lparr>left_row = v, index_right = Some i, right_row = Some p\<rparr>
           # sjoin_hits is_within v (i + 1) ps
      else sjoin_hits is_within v (i + 1) ps)"

text \<open>
  Modelled from the spec: the left join itself (the library's \<^verbatim>\<open>gpd.sjoin\<close>); every
  voter is retained, and a voter without a containing parcel keeps one row with nulls.
\<close>

fun sjoin_left ::
  "(real \<times> real \<Rightarrow> 'g \<Rightarrow> bool) \<Rightarrow> point_row list \<Rightarrow> 'g parcel list \<Rightarrow> 'g sjoin_row list" where
  "sjoin_left is_within [] ps = []"
| "sjoin_left is_within (v # vs) ps =
     (let hits = sjoin_hits is_within v 0 ps
      in (if hits = [] then [\<lparr>left_row = v, index_right = None, right_row = None\<rparr>] else hits)
         @ sjoin_left is_within vs ps)"

definition spatial_join_county ::
  "chartable \<Rightarrow> (real \<times> real \<Rightarrow> 'g \<Rightarrow> bool)
   \<Rightarrow> (string \<Rightarrow> string \<Rightarrow> real \<times> real \<Rightarrow> real \<times> real) \<Rightarrow> (string \<Rightarrow> string \<Rightarrow> 'g \<Rightarrow> 'g) \<Rightarrow> pystr
   \<Rightarrow> geo_frame \<Rightarrow> 'g parcel_frame \<Rightarrow> pystr \<Rightarrow> py_error + 'g join_result" where
  "spatial_join_county T is_within to_crs_point to_crs_geom county_name voters_in parcels_in
     output_dir =
     (let target_crs = ''EPSG:2264'';
          voters = (if crs voters_in \<noteq> target_crs
                    then \<lparr>rows = map (\<lambda>r. r\<lparr>geometry := to_crs_point (crs voters_in) target_crs
                                                            (geometry r)\<rparr>) (rows voters_in),
                          crs = target_crs\<rparr>
                    else voters_in);
          parcels_t = (if parcel_crs parcels_in \<noteq> target_crs
                       then \<lparr>parcels = map (\<lambda>p. p\<lparr>parcel_geometry :=
                                                      to_crs_geom (parcel_crs parcels_in) target_crs
                                                        (parcel_geometry p)\<rparr>) (parcels parcels_in),
                             parcel_crs = target_crs\<rparr>
                       else parcels_in);
          joined_rows = sjoin_left is_within (rows voters) (parcels parcels_t);
          n_successful = length (filter (\<lambda>r. index_right r \<noteq> None) joined_rows)
      in if length (rows voters) = 0 then Inl ZeroDivisionError
         else
           let n_rate = (real n_successful / real (length (rows voters))) * 100;
               out_rows = map (\<lambda>r. \<lparr>joined_left = left_row r, joined_right = right_row r,
                                      county = county_name\<rparr>) joined_rows;
               output_file = (output_dir, lower T county_name @ str ''_voters_with_parcels.gpkg'')
           in Inr \<lparr>joined = out_rows,
                   join_written = [(fst output_file, snd output_file, out_rows)],
                   successful_joins = n_successful,
                   join_rate = n_rate\<rparr>)"

text \<open>
  A sample geometry for concrete runs: an axis-parallel rectangle given by two corners,
  with a point within it when it lies strictly inside.
\<close>

definition within_rect :: "real \<times> real \<Rightarrow> (real \<times> real) \<times> (real \<times> real) \<Rightarrow> bool" where
  "within_rect pt r =
     (fst (fst r) < fst pt \<and> fst pt < fst (snd r) \<and> snd (fst r) < snd pt \<and> snd pt < snd (snd r))"

section \<open>Derived metrics (additional\_analyses.py)\<close>

subsection \<open>Analysis 1: density and urban/rural tiers\<close>

definition search_radius :: real where
  "search_radius = 2000"

text \<open>\<^verbatim>\<open>np.sqrt(np.sum((coords - coord) ** 2, axis=1))\<close>, over the real numbers.\<close>

definition distances :: "(real \<times> real) list \<Rightarrow> real \<times> real \<Rightarrow> real list" where
  "distances coords coord =
     map (\<lambda>p. sqrt ((fst p - fst coord)\<^sup>2 + (snd p - snd coord)\<^sup>2)) coords"

definition neighbors_within_radius :: "(real \<times> real) list \<Rightarrow> real \<times> real \<Rightarrow> nat" where
  "neighbors_within_radius coords coord =
     length (filter (\<lambda>d. d > 0 \<and> d \<le> search_radius) (distances coords coord))"

definition density_scores :: "(real \<times> real) list \<Rightarrow> nat list" where
  "density_scores coords = map (\<lambda>coord. neighbors_within_radius coords coord) coords"

text \<open>
  \<^verbatim>\<open>np.percentile(a, q)\<close> with numpy's default linear interpolation between the two
  nearest ranks of the sorted data. An empty array has no percentile (\<open>None\<close>).
\<close>

definition percentile :: "real list \<Rightarrow> real \<Rightarrow> real option" where
  "percentile a q =
     (if a = [] then None
      else let s = sort a;
               n = length a;
               virtual_index = q * real (n - 1) / 100;
               previous = nat \<lfloor>virtual_index\<rfloor>;
               next = min (previous + 1) (n - 1);
               gamma = virtual_index - real previous
           in Some (s ! previous + (s ! next - s ! previous) * gamma))"

text \<open>\<^verbatim>\<open>df.loc[mask, col] = v\<close>: the rows selected by the mask take the value.\<close>

definition loc_assign :: "bool list \<Rightarrow> 'a \<Rightarrow> 'a list \<Rightarrow> 'a list" where
  "loc_assign sel v col = map (\<lambda>(m, old). if m then v else old) (zip sel col)"

text \<open>
  The classification: the columns \<^verbatim>\<open>density_score\<close> and \<^verbatim>\<open>urban_rural\<close>, or \<open>None\<close>
  when the dataset is empty and there are no thresholds.
\<close>

definition analysis_1_urban_rural_classification ::
  "(real \<times> real) list \<Rightarrow> (nat list \<times> string list) option" where
  "analysis_1_urban_rural_classification coords =
     (let scores = density_scores coords
      in case (percentile (map real scores) 75, percentile (map real scores) 25) of
           (Some urban_threshold, Some rural_threshold) \<Rightarrow>
             let col0 = replicate (length coords) ''Suburban'';
                 col1 = loc_assign (map (\<lambda>d. real d \<ge> urban_threshold) scores) ''Urban'' col0;
                 col2 = loc_assign (map (\<lambda>d. real d \<le> rural_threshold) scores) ''Rural'' col1
             in Some (scores, col2)
         | _ \<Rightarrow> None)"

text \<open>
  The count the specification describes, following its words: the points at an index other
  than \<open>i\<close> whose distance from point \<open>i\<close> is at most 2000.
\<close>

definition spec_density_score :: "(real \<times> real) list \<Rightarrow> nat \<Rightarrow> nat" where
  "spec_density_score coords i =
     length (filter (\<lambda>j. j \<noteq> i \<and>
                          sqrt ((fst (coords ! j) - fst (coords ! i))\<^sup>2
                                + (snd (coords ! j) - snd (coords ! i))\<^sup>2) \<le> 2000)
               [0..<length coords])"

subsection \<open>Analysis 5: registration periods\<close>

text \<open>
  \<open>year_of\<close> stands for \<^verbatim>\<open>pd.to_datetime(..., errors='coerce')\<close> followed by
  \<^verbatim>\<open>.dt.year\<close>: the year of a cell that parses, \<open>None\<close> (NaN) for one that does not.
  A comparison with NaN is false.
\<close>

definition year_lt :: "int option \<Rightarrow> int \<Rightarrow> bool" where
  "year_lt y b = (case y of None \<Rightarrow> False | Some v \<Rightarrow> v < b)"

definition year_ge :: "int option \<Rightarrow> int \<Rightarrow> bool" where
  "year_ge y b = (case y of None \<Rightarrow> False | Some v \<Rightarrow> v \<ge> b)"

text \<open>
  The column \<^verbatim>\<open>registration_period\<close>; \<open>registr_dt\<close> is the column of that name, \<open>None\<close>
  when the dataset has no such column, and \<open>n\<close> the number of rows.
\<close>

definition registration_period :: "('c \<Rightarrow> int option) \<Rightarrow> nat \<Rightarrow> 'c list option \<Rightarrow> string list" where
  "registration_period year_of n registr_dt =
     (case registr_dt of
        Some dates \<Rightarrow>
          let registration_year = map year_of dates;
              col0 = replicate (length dates) ''Unknown'';
              col1 = loc_assign (map (\<lambda>y. year_lt y 2000) registration_year) ''Before 2000'' col0;
              col2 = loc_assign (map (\<lambda>y. year_ge y 2000 \<and> year_lt y 2010) registration_year)
                       ''2000-2009'' col1;
              col3 = loc_assign (map (\<lambda>y. year_ge y 2010 \<and> year_lt y 2020) registration_year)
                       ''2010-2019'' col2;
              col4 = loc_assign (map (\<lambda>y. year_ge y 2020) registration_year) ''2020-Present'' col3
          in col4
      | None \<Rightarrow> replicate n ''Unknown'')"

section \<open>Sample data for concrete runs\<close>

definition sample_voters :: "voter list" where
  "sample_voters =
     [\<lparr>voter_status_desc = Some (str ''ACTIVE''),
       res_street_address = Some (str ''100 Oak Street''), party_cd = Some (str ''DEM'')\<rparr>,
      \<lparr>voter_status_desc = Some (str ''INACTIVE''),
       res_street_address = Some (str ''100 Oak Street''), party_cd = Some (str ''REP'')\<rparr>,
      \<lparr>voter_status_desc = Some (str ''ACTIVE''),
       res_street_address = Some (str ''7 Elm Road''), party_cd = Some (str ''UNA'')\<rparr>]"

definition sample_addresses :: address_frame where
  "sample_addresses =
     \<lparr>addr_columns = [str ''OBJECTID'', str ''FULL_ADDR''],
      addr_rows =
        [\<lparr>cells = [str ''FULL_ADDR'' \<mapsto> str ''100 OAK ST.''], addr_geometry = (100, 200)\<rparr>,
         \<lparr>cells = [str ''FULL_ADDR'' \<mapsto> str ''100 oak street''], addr_geometry = (300, 400)\<rparr>,
         \<lparr>cells = Map.empty, addr_geometry = (5, 6)\<rparr>],
      addr_crs = ''EPSG:2264''\<rparr>"

definition no_reprojection :: "string \<Rightarrow> string \<Rightarrow> real \<times> real \<Rightarrow> real \<times> real" where
  "no_reprojection src dst p = p"

text \<open>Exact arithmetic: no rounding.\<close>

definition exact :: "real \<Rightarrow> real" where
  "exact v = v"

definition sample_lookup :: "pystr \<rightharpoonup> real \<times> real" where
  "sample_lookup = create_lookup latin1_table (str ''FULL_ADDR'') (addr_rows sample_addresses)"

definition sample_row :: point_row where
  "sample_row =
     \<lparr>attrs = \<lparr>source = \<lparr>voter_row = \<lparr>voter_status_desc = Some (str ''ACTIVE''),
                                       res_street_address = Some (str ''100 Oak Street''),
                                       party_cd = Some (str ''DEM'')\<rparr>,
                         clean_address = str ''100 OAK ST''\<rparr>,
               row_x = 100, row_y = 200, matched = True\<rparr>,
      geometry = (100, 200)\<rparr>"

definition no_reprojection_geom :: "string \<Rightarrow> string \<Rightarrow> 'g \<Rightarrow> 'g" where
  "no_reprojection_geom src dst g = g"

definition sample_frame :: geo_frame where
  "sample_frame = \<lparr>rows = [sample_row], crs = ''EPSG:2264''\<rparr>"

definition sample_parcels :: "((real \<times> real) \<times> (real \<times> real)) parcel_frame" where
  "sample_parcels =
     \<lparr>parcels = [\<lparr>parcel_geometry = ((0, 0), (150, 250)), parval = Some 120000\<rparr>,
                 \<lparr>parcel_geometry = ((50, 150), (400, 400)), parval = Some 90000\<rparr>,
                 \<lparr>parcel_geometry = ((1000, 1000), (2000, 2000)), parval = None\<rparr>],
      parcel_crs = ''EPSG:2264''\<rparr>"

text \<open>A rounding for concrete runs: to the nearest multiple of 1/1024.\<close>

definition sample_rounding :: "real \<Rightarrow> real" where
  "sample_rounding v = real_of_int \<lfloor>v * 1024 + 1 / 2\<rfloor> / 1024"

section \<open>The normalizer is idempotent\<close>

lemma isword_not_space: "table_ok T \<Longrightarrow> isword T c \<Longrightarrow> \<not> isspace T c"
  by (simp add: table_ok_def)

lemma blank_not_word: "table_ok T \<Longrightarrow> \<not> isword T blank"
  by (simp add: table_ok_def blank_def ascii_isword_def)

lemma upper_stable: "table_ok T \<Longrightarrow> d \<in> set (upper T a) \<Longrightarrow> upper_of T d = [d]"
  by (auto simp: table_ok_def upper_def)

lemma capital_facts:
  "table_ok T \<Longrightarrow> 65 \<le> c \<Longrightarrow> c \<le> 90 \<Longrightarrow> isword T c \<and> upper_of T c = [c] \<and> \<not> is_punct c"
  by (auto simp: table_ok_def ascii_isword_def ascii_upper_def is_punct_def str_def)

lemma wordsof_induct [case_names Nil Cons]:
  assumes "P []"
    and "\<And>c cs. (isword T c \<Longrightarrow> P (dropWhile (isword T) cs)) \<Longrightarrow> (\<not> isword T c \<Longrightarrow> P cs)
                 \<Longrightarrow> P (c # cs)"
  shows "P s"
proof (induction s rule: length_induct)
  case (1 xs)
  show ?case
  proof (cases xs)
    case Nil
    with assms(1) show ?thesis by simp
  next
    case (Cons c cs)
    have "length (dropWhile (isword T) cs) < length xs"
      using Cons length_dropWhile_le[of "isword T" cs] by simp
    then have a: "P (dropWhile (isword T) cs)" using 1 by blast
    have b: "P cs" using 1 Cons by simp
    show ?thesis unfolding Cons using a b by (intro assms(2))
  qed
qed

lemma sub_spaces_induct [case_names Nil Cons]:
  assumes "P []"
    and "\<And>c cs. (isspace T c \<Longrightarrow> P (dropWhile (isspace T) cs)) \<Longrightarrow> (\<not> isspace T c \<Longrightarrow> P cs)
                 \<Longrightarrow> P (c # cs)"
  shows "P s"
proof (induction s rule: length_induct)
  case (1 xs)
  show ?case
  proof (cases xs)
    case Nil
    with assms(1) show ?thesis by simp
  next
    case (Cons c cs)
    have "length (dropWhile (isspace T) cs) < length xs"
      using Cons length_dropWhile_le[of "isspace T" cs] by simp
    then have a: "P (dropWhile (isspace T) cs)" using 1 by blast
    have b: "P cs" using 1 Cons by simp
    show ?thesis unfolding Cons using a b by (intro assms(2))
  qed
qed

declare sub_word.simps(2) [simp del]

lemma takeWhile_dropWhile_Nil: "takeWhile P (dropWhile P xs) = []"
  by (induction xs) auto

lemma sub_word_nonword:
  assumes "wordpat T pat" "\<not> isword T c"
  shows "sub_word T pat rep prev (c # cs) = c # sub_word T pat rep False cs"
proof -
  have "\<not> word_match T pat prev (c # cs)"
  proof
    assume m: "word_match T pat prev (c # cs)"
    then have "take (length pat) (c # cs) = pat" "pat \<noteq> []" by (auto simp: word_match_def)
    then have "hd pat = c" by (cases pat) auto
    with assms show False by (cases pat) (auto simp: wordpat_def)
  qed
  with assms show ?thesis by (simp add: sub_word.simps(2))
qed

lemma sub_word_True:
  assumes "wordpat T pat"
  shows "sub_word T pat rep True s
         = takeWhile (isword T) s @ sub_word T pat rep False (dropWhile (isword T) s)"
proof (induction s)
  case Nil
  then show ?case by simp
next
  case (Cons c cs)
  show ?case
  proof (cases "isword T c")
    case True
    then have "\<not> word_match T pat True (c # cs)" by (simp add: word_match_def at_boundary_def)
    with True Cons show ?thesis by (simp add: sub_word.simps(2))
  next
    case False
    with assms show ?thesis by (simp add: sub_word_nonword)
  qed
qed

lemma word_match_iff:
  assumes "wordpat T pat" "isword T c"
  shows "word_match T pat False (c # cs) \<longleftrightarrow> c # takeWhile (isword T) cs = pat"
proof
  assume m: "word_match T pat False (c # cs)"
  define r where "r = drop (length pat) (c # cs)"
  from m have t: "take (length pat) (c # cs) = pat" and b: "r = [] \<or> \<not> isword T (hd r)"
    using assms by (auto simp: word_match_def at_boundary_def r_def wordpat_def)
  have s: "c # cs = pat @ r" using t r_def by (metis append_take_drop_id)
  have "takeWhile (isword T) (pat @ r) = pat"
    using assms(1) b by (cases r) (auto simp: wordpat_def)
  with s assms(2) show "c # takeWhile (isword T) cs = pat" by (metis takeWhile.simps(2))
next
  assume e: "c # takeWhile (isword T) cs = pat"
  have s: "c # cs = pat @ dropWhile (isword T) cs"
    using e by (metis append_Cons takeWhile_dropWhile_id)
  have d: "drop (length pat) (c # cs) = dropWhile (isword T) cs" by (subst s) simp
  have t: "take (length pat) (c # cs) = pat" by (subst s) simp
  have b: "dropWhile (isword T) cs = [] \<or> \<not> isword T (hd (dropWhile (isword T) cs))"
    using hd_dropWhile by blast
  show "word_match T pat False (c # cs)"
    using assms t d b e unfolding word_match_def at_boundary_def wordpat_def
    by (auto simp del: take_Suc_Cons drop_Suc_Cons)
qed

lemma sub_word_word:
  assumes "wordpat T pat" "isword T c"
  shows "sub_word T pat rep False (c # cs) =
         (if c # takeWhile (isword T) cs = pat then rep else c # takeWhile (isword T) cs)
         @ sub_word T pat rep False (dropWhile (isword T) cs)"
proof (cases "c # takeWhile (isword T) cs = pat")
  case True
  then have m: "word_match T pat False (c # cs)" using assms word_match_iff by blast
  have s: "c # cs = pat @ dropWhile (isword T) cs"
    using True by (metis append_Cons takeWhile_dropWhile_id)
  have d: "drop (length pat) (c # cs) = dropWhile (isword T) cs" by (subst s) simp
  have l: "isword T (last pat)" using assms(1) by (simp add: wordpat_def)
  have "sub_word T pat rep False (c # cs) = rep @ sub_word T pat rep True (dropWhile (isword T) cs)"
    using m d l by (simp add: sub_word.simps(2) del: drop_Suc_Cons)
  also have "sub_word T pat rep True (dropWhile (isword T) cs)
             = sub_word T pat rep False (dropWhile (isword T) cs)"
    by (subst sub_word_True[OF assms(1)]) (simp add: takeWhile_dropWhile_Nil)
  finally show ?thesis using True by simp
next
  case False
  then have m: "\<not> word_match T pat False (c # cs)" using assms word_match_iff by blast
  then show ?thesis using False assms by (simp add: sub_word.simps(2) sub_word_True)
qed

lemma sub_word_head_nonword:
  assumes "wordpat T pat" "s = [] \<or> \<not> isword T (hd s)"
  shows "sub_word T pat rep False s = [] \<or> \<not> isword T (hd (sub_word T pat rep False s))"
  using assms by (cases s) (auto simp: sub_word_nonword)

lemma wordsof_word_append:
  assumes "u \<noteq> []" "\<forall>c\<in>set u. isword T c" "t = [] \<or> \<not> isword T (hd t)"
  shows "wordsof T (u @ t) = u # wordsof T t"
proof -
  obtain c cs where u: "u = c # cs" using assms(1) by (cases u) auto
  have tw: "takeWhile (isword T) (cs @ t) = cs" using assms u by (cases t) auto
  have dw: "dropWhile (isword T) (cs @ t) = t" using assms u by (cases t) auto
  show ?thesis using assms u tw dw by simp
qed

lemma sub_word_fixed:
  assumes "wordpat T pat"
  shows "pat \<notin> set (wordsof T s) \<Longrightarrow> sub_word T pat rep False s = s"
proof (induction s rule: wordsof_induct[where T = T])
  case Nil
  then show ?case by simp
next
  case (Cons c cs)
  show ?case
  proof (cases "isword T c")
    case True
    with Cons assms show ?thesis by (auto simp: sub_word_word)
  next
    case False
    with Cons assms show ?thesis by (simp add: sub_word_nonword)
  qed
qed

lemma wordsof_sub_word:
  assumes "wordpat T pat" "wordpat T rep"
  shows "wordsof T (sub_word T pat rep False s)
         = map (\<lambda>w. if w = pat then rep else w) (wordsof T s)"
proof (induction s rule: wordsof_induct[where T = T])
  case Nil
  then show ?case by simp
next
  case (Cons c cs)
  show ?case
  proof (cases "isword T c")
    case True
    let ?w = "c # takeWhile (isword T) cs"
    let ?u = "if ?w = pat then rep else ?w"
    let ?r = "dropWhile (isword T) cs"
    have r: "?r = [] \<or> \<not> isword T (hd ?r)" using hd_dropWhile by blast
    have h: "sub_word T pat rep False ?r = [] \<or> \<not> isword T (hd (sub_word T pat rep False ?r))"
      using sub_word_head_nonword[OF assms(1) r] .
    have u: "?u \<noteq> []" "\<forall>c\<in>set ?u. isword T c"
      using assms(2) True by (auto simp: wordpat_def dest: set_takeWhileD)
    have "wordsof T (?u @ sub_word T pat rep False ?r)
          = ?u # wordsof T (sub_word T pat rep False ?r)"
      using wordsof_word_append[OF u h] .
    with True Cons assms show ?thesis by (simp add: sub_word_word)
  next
    case False
    with Cons assms show ?thesis by (simp add: sub_word_nonword)
  qed
qed

lemma wordsof_dropWhile_space:
  assumes "table_ok T"
  shows "wordsof T (dropWhile (isspace T) s) = wordsof T s"
  by (induction s) (auto dest: isword_not_space[OF assms])

lemma takeWhile_word_sub_spaces:
  assumes "table_ok T"
  shows "takeWhile (isword T) (sub_spaces T s) = takeWhile (isword T) s"
proof (induction s rule: sub_spaces_induct[where T = T])
  case Nil
  then show ?case by simp
next
  case (Cons c cs)
  then show ?case
    using isword_not_space[OF assms, of c] blank_not_word[OF assms] by auto
qed

lemma dropWhile_word_sub_spaces:
  assumes "table_ok T"
  shows "dropWhile (isword T) (sub_spaces T s) = sub_spaces T (dropWhile (isword T) s)"
proof (induction s rule: sub_spaces_induct[where T = T])
  case Nil
  then show ?case by simp
next
  case (Cons c cs)
  then show ?case
    using isword_not_space[OF assms, of c] blank_not_word[OF assms] by auto
qed

lemma wordsof_sub_spaces:
  assumes "table_ok T"
  shows "wordsof T (sub_spaces T s) = wordsof T s"
proof (induction s rule: wordsof_induct[where T = T])
  case Nil
  then show ?case by simp
next
  case (Cons c cs)
  show ?case
  proof (cases "isword T c")
    case True
    then have "\<not> isspace T c" by (rule isword_not_space[OF assms])
    with True Cons show ?thesis
      by (simp add: takeWhile_word_sub_spaces[OF assms] dropWhile_word_sub_spaces[OF assms])
  next
    case False
    show ?thesis
    proof (cases "isspace T c")
      case sp: True
      have "wordsof T (sub_spaces T (dropWhile (isspace T) cs)) = wordsof T (sub_spaces T cs)"
        using blank_not_word[OF assms] by (cases cs) auto
      with sp False Cons show ?thesis using blank_not_word[OF assms] by simp
    next
      case nsp: False
      with False Cons show ?thesis by simp
    qed
  qed
qed

lemma wordsof_nonword: "\<forall>c\<in>set t. \<not> isword T c \<Longrightarrow> wordsof T t = []"
  by (induction t) auto

lemma wordsof_append_nonword:
  assumes "\<forall>c\<in>set t. \<not> isword T c"
  shows "wordsof T (s @ t) = wordsof T s"
proof (induction s rule: wordsof_induct[where T = T])
  case Nil
  then show ?case using assms by (simp add: wordsof_nonword)
next
  case (Cons c cs)
  have t: "t = [] \<or> \<not> isword T (hd t)" using assms by (cases t) auto
  have tw: "takeWhile (isword T) (cs @ t) = takeWhile (isword T) cs"
    using t by (induction cs) (auto, cases t, auto)
  have dw: "dropWhile (isword T) (cs @ t) = dropWhile (isword T) cs @ t"
    using t by (induction cs) (auto, cases t, auto)
  show ?case using Cons tw dw by simp
qed

lemma rstrip_decomp: "s = rev (dropWhile P (rev s)) @ rev (takeWhile P (rev s))"
  by (metis rev_append rev_rev_ident takeWhile_dropWhile_id)

lemma wordsof_strip:
  assumes "table_ok T"
  shows "wordsof T (strip T s) = wordsof T s"
proof -
  let ?t = "dropWhile (isspace T) s"
  have "\<forall>c\<in>set (rev (takeWhile (isspace T) (rev ?t))). \<not> isword T c"
    by (auto dest: set_takeWhileD isword_not_space[OF assms])
  then have "wordsof T (rev (dropWhile (isspace T) (rev ?t)) @ rev (takeWhile (isspace T) (rev ?t)))
             = wordsof T (rev (dropWhile (isspace T) (rev ?t)))"
    by (rule wordsof_append_nonword)
  then have "wordsof T ?t = wordsof T (strip T s)"
    using rstrip_decomp[of ?t "isspace T"] by (simp add: strip_def)
  then show ?thesis by (simp add: wordsof_dropWhile_space[OF assms])
qed

lemma plain_blank: "table_ok T \<Longrightarrow> plain T blank"
  by (simp add: plain_def table_ok_def blank_def ascii_upper_def is_punct_def str_def)

lemma set_strip: "set (strip T s) \<subseteq> set s"
proof
  fix c assume "c \<in> set (strip T s)"
  then have "c \<in> set (dropWhile (isspace T) (rev (dropWhile (isspace T) s)))"
    by (simp add: strip_def)
  then have "c \<in> set (rev (dropWhile (isspace T) s))" by (rule set_dropWhileD)
  then have "c \<in> set (dropWhile (isspace T) s)" by simp
  then show "c \<in> set s" by (rule set_dropWhileD)
qed

lemma set_sub_spaces: "set (sub_spaces T s) \<subseteq> insert blank (set s)"
  by (induction s rule: sub_spaces_induct[where T = T]) (auto dest: set_dropWhileD)

lemma set_sub_word: "set (sub_word T pat rep prev s) \<subseteq> set rep \<union> set s"
proof (induction T pat rep prev s rule: sub_word.induct)
  case (1 T pat rep prev)
  then show ?case by simp
next
  case (2 T pat rep prev c cs)
  show ?case
  proof (cases "word_match T pat prev (c # cs)")
    case True
    have "set (drop (length pat) (c # cs)) \<subseteq> set (c # cs)" by (rule set_drop_subset)
    with True 2(1) show ?thesis by (auto simp: sub_word.simps(2) simp del: drop_Suc_Cons)
  next
    case False
    with 2(2) show ?thesis by (auto simp: sub_word.simps(2))
  qed
qed

lemma plain_upper_punct:
  assumes "table_ok T"
  shows "\<forall>c\<in>set (sub_punct (strip T (upper T a))). plain T c"
proof
  fix c assume "c \<in> set (sub_punct (strip T (upper T a)))"
  then obtain d where d: "d \<in> set (strip T (upper T a))"
    and c: "c = (if is_punct d then blank else d)"
    by (auto simp: sub_punct_def is_punct_def)
  from d have "d \<in> set (upper T a)" using set_strip by blast
  then have u: "upper_of T d = [d]" by (rule upper_stable[OF assms])
  show "plain T c"
  proof (cases "is_punct d")
    case True
    with c show ?thesis by (simp add: plain_blank[OF assms])
  next
    case False
    with c u show ?thesis by (simp add: plain_def)
  qed
qed

lemma plain_fold:
  assumes "\<forall>(p, r)\<in>set rs. \<forall>c\<in>set r. plain T c" "\<forall>c\<in>set s. plain T c"
  shows "\<forall>c\<in>set (fold (\<lambda>(pattern, replacement) s. sub_word T pattern replacement False s) rs s).
           plain T c"
  using assms
proof (induction rs arbitrary: s)
  case Nil
  then show ?case by simp
next
  case (Cons pr rs)
  obtain p r where pr: "pr = (p, r)" by (cases pr)
  have "\<forall>c\<in>set (sub_word T p r False s). plain T c"
    using set_sub_word[of T p r False s] Cons.prems pr by auto
  with Cons pr show ?case by simp
qed

lemma replacements_capitals:
  "\<forall>(p, r)\<in>set replacements.
     p \<noteq> [] \<and> r \<noteq> [] \<and> (\<forall>c\<in>set p. 65 \<le> c \<and> c \<le> 90) \<and> (\<forall>c\<in>set r. 65 \<le> c \<and> c \<le> 90)"
  by (simp add: replacements_def str_def)

lemma replacements_plain:
  assumes "table_ok T"
  shows "\<forall>(p, r)\<in>set replacements. \<forall>c\<in>set r. plain T c"
  using replacements_capitals capital_facts[OF assms] by (fastforce simp: plain_def)

lemma replacements_wordpat:
  assumes "table_ok T"
  shows "\<forall>(p, r)\<in>set replacements. wordpat T p \<and> wordpat T r"
  using replacements_capitals capital_facts[OF assms] by (fastforce simp: wordpat_def)

lemma plain_clean:
  assumes "table_ok T"
  shows "\<forall>c\<in>set (enhanced_clean T (Some a)). plain T c"
proof -
  let ?s3 = "fold (\<lambda>(pattern, replacement) s. sub_word T pattern replacement False s)
               replacements (sub_punct (strip T (upper T a)))"
  have "\<forall>c\<in>set ?s3. plain T c"
    using plain_fold[OF replacements_plain[OF assms] plain_upper_punct[OF assms]] .
  then have "\<forall>c\<in>set (sub_spaces T ?s3). plain T c"
    using set_sub_spaces[of T ?s3] plain_blank[OF assms] by auto
  then have "\<forall>c\<in>set (strip T (sub_spaces T ?s3)). plain T c"
    using set_strip[of T "sub_spaces T ?s3"] by auto
  then show ?thesis by (simp add: enhanced_clean_def)
qed

lemma upper_plain: "\<forall>c\<in>set s. plain T c \<Longrightarrow> upper T s = s"
  by (induction s) (auto simp: upper_def plain_def)

lemma sub_punct_plain: "\<forall>c\<in>set s. plain T c \<Longrightarrow> sub_punct s = s"
  unfolding sub_punct_def by (rule map_idI) (simp add: plain_def is_punct_def)

lemma strip_fixed:
  assumes "s = [] \<or> (\<not> isspace T (hd s) \<and> \<not> isspace T (last s))"
  shows "strip T s = s"
proof (cases s)
  case Nil
  then show ?thesis by (simp add: strip_def)
next
  case (Cons c cs)
  with assms have h: "\<not> isspace T (hd s)" and l: "\<not> isspace T (last s)" by auto
  have 1: "dropWhile (isspace T) s = s" using h Cons by simp
  have "hd (rev s) = last s" using Cons by (simp add: hd_rev)
  then have 2: "dropWhile (isspace T) (rev s) = rev s" using l Cons by (cases "rev s") auto
  show ?thesis by (simp add: strip_def 1 2)
qed

lemma strip_stripped:
  "strip T s = [] \<or> (\<not> isspace T (hd (strip T s)) \<and> \<not> isspace T (last (strip T s)))"
proof (cases "strip T s = []")
  case True
  then show ?thesis by simp
next
  case False
  let ?t = "dropWhile (isspace T) s"
  let ?u = "dropWhile (isspace T) (rev ?t)"
  have s: "strip T s = rev ?u" by (simp add: strip_def)
  with False have u: "?u \<noteq> []" by simp
  then have hu: "\<not> isspace T (hd ?u)" using hd_dropWhile by blast
  have l: "last (strip T s) = hd ?u" using u s by (simp add: last_rev)
  have t: "?t \<noteq> []" using u by (auto dest: set_dropWhileD)
  have "rev ?t = takeWhile (isspace T) (rev ?t) @ ?u" by simp
  then have "last (rev ?t) = last ?u" using u by (metis last_appendR)
  then have "last ?u = hd ?t" using t by (simp add: last_rev)
  moreover have "\<not> isspace T (hd ?t)" using t hd_dropWhile by blast
  moreover have "hd (strip T s) = last ?u" using u s by (simp add: hd_rev)
  ultimately show ?thesis using hu l by simp
qed

lemma sub_spaces_fixed: "spaces_ok T s \<Longrightarrow> sub_spaces T s = s"
proof (induction s)
  case Nil
  then show ?case by simp
next
  case (Cons c cs)
  then have "isspace T c \<Longrightarrow> dropWhile (isspace T) cs = cs" by (cases cs) auto
  with Cons show ?case by auto
qed

lemma sub_spaces_head:
  "t = [] \<or> \<not> isspace T (hd t) \<Longrightarrow> sub_spaces T t = [] \<or> \<not> isspace T (hd (sub_spaces T t))"
  by (cases t) auto

lemma spaces_ok_sub_spaces: "spaces_ok T (sub_spaces T s)"
proof (induction s rule: sub_spaces_induct[where T = T])
  case Nil
  then show ?case by simp
next
  case (Cons c cs)
  have "dropWhile (isspace T) cs = [] \<or> \<not> isspace T (hd (dropWhile (isspace T) cs))"
    using hd_dropWhile by blast
  then have "sub_spaces T (dropWhile (isspace T) cs) = []
             \<or> \<not> isspace T (hd (sub_spaces T (dropWhile (isspace T) cs)))"
    by (rule sub_spaces_head)
  with Cons show ?case by (auto simp: blank_def)
qed

lemma spaces_ok_append: "spaces_ok T (a @ b) \<Longrightarrow> spaces_ok T a \<and> spaces_ok T b"
proof (induction a)
  case Nil
  then show ?case by simp
next
  case (Cons c a)
  then show ?case by (cases a) auto
qed

lemma spaces_ok_strip:
  assumes "spaces_ok T s"
  shows "spaces_ok T (strip T s)"
proof -
  let ?t = "dropWhile (isspace T) s"
  have "s = takeWhile (isspace T) s @ ?t" by simp
  then have "spaces_ok T ?t" using assms spaces_ok_append by metis
  moreover have "?t = strip T s @ rev (takeWhile (isspace T) (rev ?t))"
    using rstrip_decomp[of ?t "isspace T"] by (simp add: strip_def)
  ultimately show ?thesis using spaces_ok_append by metis
qed

lemma wordsof_fold:
  assumes "\<forall>(p, r)\<in>set rs. wordpat T p \<and> wordpat T r"
  shows "wordsof T (fold (\<lambda>(pattern, replacement) s. sub_word T pattern replacement False s) rs s)
         = map (fold (\<lambda>(pattern, replacement) w. if w = pattern then replacement else w) rs)
             (wordsof T s)"
  using assms
proof (induction rs arbitrary: s)
  case Nil
  then show ?case by simp
next
  case (Cons pr rs)
  obtain p r where pr: "pr = (p, r)" by (cases pr)
  with Cons.prems have "wordpat T p" "wordpat T r" by auto
  then have "wordsof T (sub_word T p r False s) = map (\<lambda>w. if w = p then r else w) (wordsof T s)"
    by (rule wordsof_sub_word)
  with Cons pr show ?case by (simp add: comp_def)
qed

lemma fold_fixed:
  assumes "\<forall>(p, r)\<in>set rs. wordpat T p \<and> p \<notin> set (wordsof T s)"
  shows "fold (\<lambda>(pattern, replacement) s. sub_word T pattern replacement False s) rs s = s"
  using assms
proof (induction rs)
  case Nil
  then show ?case by simp
next
  case (Cons pr rs)
  obtain p r where pr: "pr = (p, r)" by (cases pr)
  with Cons.prems have "sub_word T p r False s = s" by (auto intro: sub_word_fixed)
  with Cons pr show ?case by simp
qed

lemma replaced_word_no_pattern:
  "\<forall>(p, r)\<in>set replacements.
     fold (\<lambda>(pattern, replacement) w. if w = pattern then replacement else w) replacements w \<noteq> p"
  by (simp add: replacements_def str_def)

lemma clean_no_pattern:
  assumes "table_ok T"
  shows "\<forall>(p, r)\<in>set replacements.
           wordpat T p \<and> p \<notin> set (wordsof T (enhanced_clean T (Some a)))"
proof -
  let ?s2 = "sub_punct (strip T (upper T a))"
  let ?F = "fold (\<lambda>(pattern, replacement) w. if w = pattern then replacement else w) replacements"
  have "wordsof T (enhanced_clean T (Some a)) = map ?F (wordsof T ?s2)"
    by (simp add: enhanced_clean_def wordsof_strip[OF assms] wordsof_sub_spaces[OF assms]
        wordsof_fold[OF replacements_wordpat[OF assms]])
  moreover have "\<forall>(p, r)\<in>set replacements. p \<notin> set (map ?F (wordsof T ?s2))"
    using replaced_word_no_pattern by fastforce
  ultimately show ?thesis using replacements_wordpat[OF assms] by auto
qed

lemma enhanced_clean_empty: "enhanced_clean T (Some []) = []"
  by (simp add: enhanced_clean_def strip_def upper_def sub_punct_def replacements_def)

text \<open>
  Claim C3. The address normalizer is idempotent: for every input, a string of any code
  points or a missing value, normalizing the normalized result gives the normalized result
  again. The character tables are any that satisfy \<open>table_ok\<close>.
\<close>

theorem enhanced_clean_idempotent:
  assumes "table_ok T"
  shows "enhanced_clean T (Some (enhanced_clean T addr)) = enhanced_clean T addr"
proof (cases addr)
  case None
  then have "enhanced_clean T addr = []" by (simp add: enhanced_clean_def)
  then show ?thesis by (simp add: enhanced_clean_empty)
next
  case (Some a)
  let ?r = "enhanced_clean T (Some a)"
  let ?s3 = "fold (\<lambda>(pattern, replacement) s. sub_word T pattern replacement False s)
               replacements (sub_punct (strip T (upper T a)))"
  have r: "?r = strip T (sub_spaces T ?s3)" by (simp add: enhanced_clean_def)
  have p: "\<forall>c\<in>set ?r. plain T c" by (rule plain_clean[OF assms])
  have st: "strip T ?r = ?r" unfolding r using strip_stripped by (rule strip_fixed)
  have 1: "strip T (upper T ?r) = ?r" using upper_plain[OF p] st by simp
  have 2: "sub_punct ?r = ?r" using p by (rule sub_punct_plain)
  have 3: "fold (\<lambda>(pattern, replacement) s. sub_word T pattern replacement False s)
             replacements ?r = ?r"
    using clean_no_pattern[OF assms] by (rule fold_fixed)
  have "spaces_ok T ?r" unfolding r using spaces_ok_sub_spaces by (rule spaces_ok_strip)
  then have 4: "sub_spaces T ?r = ?r" by (rule sub_spaces_fixed)
  have "enhanced_clean T (Some ?r) = ?r"
    by (subst (1) enhanced_clean_def) (simp add: 1 2 3 4 st)
  with Some show ?thesis by simp
qed

lemma latin1_table_ok: "table_ok latin1_table"
  unfolding table_ok_def latin1_table_def
  by (auto simp: ascii_isspace_def ascii_isword_def ascii_upper_def)

section \<open>The lookup and the geocoder\<close>

lemma lookup_loop_get:
  "lookup_loop m kvs k =
     (case m k of
        Some g \<Rightarrow> Some g
      | None \<Rightarrow> if k = [] then None else map_option snd (find (\<lambda>kv. fst kv = k) kvs))"
proof (induction kvs arbitrary: m)
  case Nil
  then show ?case by (simp split: option.splits)
next
  case (Cons kv kvs)
  obtain k' g where kv: "kv = (k', g)" by (cases kv)
  show ?case unfolding kv by (auto simp: Cons.IH split: option.splits)
qed

lemma find_map_list: "find P (map f xs) = map_option f (find (\<lambda>x. P (f x)) xs)"
  by (induction xs) auto

lemma create_lookup_get:
  "create_lookup T addr_col rs k =
     (if k = [] then None
      else case find (\<lambda>r. enhanced_clean T (cells r addr_col) = k) rs of
             None \<Rightarrow> None
           | Some r \<Rightarrow> Some (addr_geometry r))"
  by (simp add: create_lookup_def lookup_loop_get find_map_list split: option.splits)

text \<open>
  Claim C6. The lookup built from the reference rows maps every key to the coordinate of
  the first row, in the rows' order, whose normalized address is that key (later rows
  with the same key change nothing), and the empty string is never a key.
\<close>

theorem create_lookup_first_wins:
  "create_lookup T addr_col rs [] = None \<and>
   (k \<noteq> [] \<longrightarrow>
      create_lookup T addr_col rs k =
        (case find (\<lambda>r. enhanced_clean T (cells r addr_col) = k) rs of
           None \<Rightarrow> None
         | Some r \<Rightarrow> Some (addr_geometry r)))"
  by (simp add: create_lookup_get)

lemma match_loop_fst:
  "fst (match_loop lk vs (ms, n)) =
     ms @ map (\<lambda>v. \<lparr>source = v, row_x = fst (the (lk (clean_address v))),
                     row_y = snd (the (lk (clean_address v))), matched = True\<rparr>)
            (filter (\<lambda>v. lk (clean_address v) \<noteq> None) vs)"
  by (induction vs arbitrary: ms n) (auto split: option.splits)

lemma match_loop_snd:
  "snd (match_loop lk vs (ms, n)) = n + length (filter (\<lambda>v. lk (clean_address v) \<noteq> None) vs)"
  by (induction vs arbitrary: ms n) (auto split: option.splits)

lemma rate_bounds:
  assumes "rounding_ok rnd" "m \<le> n"
  shows "0 \<le> rate rnd m n \<and> rate rnd m n \<le> 100"
proof (cases "n > 0")
  case False
  then show ?thesis by (simp add: rate_def)
next
  case True
  from assms(1) have mono: "mono rnd" and r0: "rnd 0 = 0" and r1: "rnd 1 = 1"
    and r100: "rnd 100 = 100"
    by (simp_all add: rounding_ok_def)
  have q: "0 \<le> real m / real n" "real m / real n \<le> 1" using True assms(2) by simp_all
  have a: "0 \<le> rnd (real m / real n)" using monoD[OF mono q(1)] r0 by simp
  have b: "rnd (real m / real n) \<le> 1" using monoD[OF mono q(2)] r1 by simp
  have "rnd 0 \<le> rnd (rnd (real m / real n) * 100)" using a by (intro monoD[OF mono]) simp
  moreover have "rnd (rnd (real m / real n) * 100) \<le> rnd 100"
    using b by (intro monoD[OF mono]) simp
  ultimately show ?thesis using True r0 r100 by (simp add: rate_def)
qed

lemma attrs_returned_rows:
  "map attrs (returned_rows (geocode_with_lookup T rnd to_crs county_name voters lk acrs output_dir))
   = fst (match_loop lk (clean_voters T (active_voters voters)) ([], 0))"
proof -
  obtain ms n where m: "match_loop lk (clean_voters T (active_voters voters)) ([], 0) = (ms, n)"
    by (cases "match_loop lk (clean_voters T (active_voters voters)) ([], 0)")
  show ?thesis
    by (simp add: geocode_with_lookup_def returned_rows_def m Let_def comp_def)
qed

lemma matches_eq:
  "fst (match_loop lk (clean_voters T (active_voters voters)) ([], 0)) =
     map (\<lambda>v. \<lparr>source = \<lparr>voter_row = v, clean_address = enhanced_clean T (res_street_address v)\<rparr>,
                 row_x = fst (the (lk (enhanced_clean T (res_street_address v)))),
                 row_y = snd (the (lk (enhanced_clean T (res_street_address v)))),
                 matched = True\<rparr>)
       (filter (\<lambda>v. voter_status_desc v = Some (str ''ACTIVE'')
                     \<and> lk (enhanced_clean T (res_street_address v)) \<noteq> None) voters)"
  by (simp add: match_loop_fst clean_voters_def active_voters_def filter_map comp_def
      del: not_None_eq)

text \<open>
  Claim C4. For every voter collection and lookup, the geocoder's output holds exactly the
  voters whose status is ACTIVE and whose normalized address is a key of the lookup, in
  their order; each output row carries the lookup's coordinate for its key and the flag
  matched = True; no other voter appears in the output.
\<close>

theorem geocode_output_exact:
  "map (\<lambda>r. voter_row (source (attrs r)))
       (returned_rows (geocode_with_lookup T rnd to_crs county_name voters lk acrs output_dir))
   = filter (\<lambda>v. voter_status_desc v = Some (str ''ACTIVE'')
                  \<and> lk (enhanced_clean T (res_street_address v)) \<noteq> None) voters
   \<and> (\<forall>r\<in>set (returned_rows (geocode_with_lookup T rnd to_crs county_name voters lk acrs output_dir)).
        matched (attrs r)
        \<and> clean_address (source (attrs r))
            = enhanced_clean T (res_street_address (voter_row (source (attrs r))))
        \<and> lk (clean_address (source (attrs r))) = Some (row_x (attrs r), row_y (attrs r)))"
proof -
  let ?out = "geocode_with_lookup T rnd to_crs county_name voters lk acrs output_dir"
  let ?hit = "\<lambda>v. voter_status_desc v = Some (str ''ACTIVE'')
                  \<and> lk (enhanced_clean T (res_street_address v)) \<noteq> None"
  let ?mk = "\<lambda>v. \<lparr>source = \<lparr>voter_row = v, clean_address = enhanced_clean T (res_street_address v)\<rparr>,
                 row_x = fst (the (lk (enhanced_clean T (res_street_address v)))),
                 row_y = snd (the (lk (enhanced_clean T (res_street_address v)))),
                 matched = True\<rparr>"
  have a: "map attrs (returned_rows ?out) = map ?mk (filter ?hit voters)"
    using attrs_returned_rows matches_eq by simp
  have "map (\<lambda>r. voter_row (source (attrs r))) (returned_rows ?out)
        = map (\<lambda>m. voter_row (source m)) (map attrs (returned_rows ?out))"
    by (simp add: comp_def)
  also have "\<dots> = filter ?hit voters" unfolding a by (simp add: comp_def)
  finally have 1: "map (\<lambda>r. voter_row (source (attrs r))) (returned_rows ?out)
                   = filter ?hit voters" .
  have 2: "matched (attrs r)
        \<and> clean_address (source (attrs r))
            = enhanced_clean T (res_street_address (voter_row (source (attrs r))))
        \<and> lk (clean_address (source (attrs r))) = Some (row_x (attrs r), row_y (attrs r))"
    if "r \<in> set (returned_rows ?out)" for r
  proof -
    from that have "attrs r \<in> set (map attrs (returned_rows ?out))" by simp
    then obtain v where "v \<in> set (filter ?hit voters)" "attrs r = ?mk v"
      unfolding a by auto
    then show ?thesis by auto
  qed
  from 1 2 show ?thesis by blast
qed

text \<open>
  Claim C5. The geocoder's matched count is the number of ACTIVE voters whose normalized
  address is a key of the lookup, so it is at most the number of ACTIVE voters. The rate
  that is reported is the quotient matched count / active count, times 100, each of the two
  operations rounded; the rate function gives 0 when there is no active voter; and the rate
  lies between 0 and 100.
\<close>

theorem geocode_count_and_rate:
  assumes "rounding_ok rnd"
  shows
  "snd (match_loop lk (clean_voters T (active_voters voters)) ([], 0))
     = length (filter (\<lambda>v. voter_status_desc v = Some (str ''ACTIVE'')
                             \<and> lk (enhanced_clean T (res_street_address v)) \<noteq> None) voters)
   \<and> snd (match_loop lk (clean_voters T (active_voters voters)) ([], 0))
       \<le> length (filter (\<lambda>v. voter_status_desc v = Some (str ''ACTIVE'')) voters)
   \<and> rate rnd matched_count 0 = 0
   \<and> (case results (geocode_with_lookup T rnd to_crs county_name voters lk acrs output_dir) of
        None \<Rightarrow> True
      | Some rep \<Rightarrow>
          total_voters rep
            = length (filter (\<lambda>v. voter_status_desc v = Some (str ''ACTIVE'')) voters)
          \<and> geocoded rep = snd (match_loop lk (clean_voters T (active_voters voters)) ([], 0))
          \<and> geocoded rep
              = length (returned_rows (geocode_with_lookup T rnd to_crs county_name voters lk
                                         acrs output_dir))
          \<and> 0 < total_voters rep
          \<and> geocoded rep \<le> total_voters rep
          \<and> success_rate rep
              = rnd (rnd (real (geocoded rep) / real (total_voters rep)) * 100)
          \<and> 0 \<le> success_rate rep \<and> success_rate rep \<le> 100)"
proof -
  let ?act = "clean_voters T (active_voters voters)"
  let ?n = "length (filter (\<lambda>v. voter_status_desc v = Some (str ''ACTIVE'')) voters)"
  obtain ms n where m: "match_loop lk ?act ([], 0) = (ms, n)"
    by (cases "match_loop lk ?act ([], 0)")
  have n: "n = length (filter (\<lambda>v. lk (clean_address v) \<noteq> None) ?act)"
    using match_loop_snd[of lk ?act "[]" 0] m by simp
  have len: "length ?act = ?n" by (simp add: clean_voters_def active_voters_def)
  have hits: "n = length (filter (\<lambda>v. voter_status_desc v = Some (str ''ACTIVE'')
                             \<and> lk (enhanced_clean T (res_street_address v)) \<noteq> None) voters)"
    unfolding n
    by (simp add: clean_voters_def active_voters_def filter_map comp_def del: not_None_eq)
  have le: "n \<le> ?n"
    unfolding n using length_filter_le[of _ ?act] len by simp
  have ms: "length ms = n"
    using match_loop_fst[of lk ?act "[]" 0] m n by simp
  have pos: "ms \<noteq> [] \<Longrightarrow> 0 < ?n" using ms le by (cases ms) auto
  have r: "0 \<le> rate rnd n ?n \<and> rate rnd n ?n \<le> 100"
    using rate_bounds[OF assms le] .
  have q: "0 < ?n \<Longrightarrow> rate rnd n ?n = rnd (rnd (real n / real ?n) * 100)"
    by (simp add: rate_def)
  have z: "rate rnd matched_count 0 = 0" by (simp add: rate_def)
  let ?out = "geocode_with_lookup T rnd to_crs county_name voters lk acrs output_dir"
  have mc: "snd (match_loop lk ?act ([], 0)) = n" by (simp add: m)
  have res: "results ?out =
               (if ms \<noteq> [] then Some \<lparr>total_voters = ?n, geocoded = n,
                                        success_rate = rate rnd n ?n\<rparr> else None)"
    by (simp add: geocode_with_lookup_def m Let_def len)
  have rr: "length (returned_rows ?out) = length ms"
    by (simp add: geocode_with_lookup_def returned_rows_def m Let_def)
  have first: "snd (match_loop lk ?act ([], 0))
     = length (filter (\<lambda>v. voter_status_desc v = Some (str ''ACTIVE'')
                             \<and> lk (enhanced_clean T (res_street_address v)) \<noteq> None) voters)
   \<and> snd (match_loop lk ?act ([], 0)) \<le> ?n \<and> rate rnd matched_count 0 = 0"
    unfolding mc using hits le z by blast
  show ?thesis
  proof (cases "ms = []")
    case True
    then have "results ?out = None" using res by simp
    with first show ?thesis by simp
  next
    case False
    then have p: "0 < ?n" by (rule pos)
    have "results ?out = Some \<lparr>total_voters = ?n, geocoded = n, success_rate = rate rnd n ?n\<rparr>"
      using False res by simp
    moreover have "rate rnd n ?n = rnd (rnd (real n / real ?n) * 100)" using p by (rule q)
    ultimately show ?thesis
      using first mc rr ms le p r by simp
  qed
qed

lemma geocode_with_lookup_cases:
  "(filter (\<lambda>v. voter_status_desc v = Some (str ''ACTIVE'')
                  \<and> lk (enhanced_clean T (res_street_address v)) \<noteq> None) voters = []
    \<longrightarrow> geocode_with_lookup T rnd to_crs county_name voters lk acrs output_dir
          = \<lparr>returned = None, written = [], results = None\<rparr>)
   \<and> (filter (\<lambda>v. voter_status_desc v = Some (str ''ACTIVE'')
                  \<and> lk (enhanced_clean T (res_street_address v)) \<noteq> None) voters \<noteq> []
    \<longrightarrow> returned (geocode_with_lookup T rnd to_crs county_name voters lk acrs output_dir) \<noteq> None
        \<and> written (geocode_with_lookup T rnd to_crs county_name voters lk acrs output_dir) \<noteq> [])"
proof -
  let ?act = "clean_voters T (active_voters voters)"
  obtain ms n where m: "match_loop lk ?act ([], 0) = (ms, n)"
    by (cases "match_loop lk ?act ([], 0)")
  have "ms = [] \<longleftrightarrow> filter (\<lambda>v. voter_status_desc v = Some (str ''ACTIVE'')
                  \<and> lk (enhanced_clean T (res_street_address v)) \<noteq> None) voters = []"
    using matches_eq[of lk T voters] m by (simp del: not_None_eq)
  then show ?thesis
    by (simp add: geocode_with_lookup_def m Let_def del: not_None_eq)
qed

text \<open>
  Claim C9. If no active voter's normalized address is a key of the lookup, the geocoder
  returns None and writes no dataset (and prints no results); a frame is returned only when
  at least one active voter matched. The same holds when no address column is found.
\<close>

theorem geocode_none_without_match:
  "(\<not> (\<exists>v\<in>set voters. voter_status_desc v = Some (str ''ACTIVE'')
          \<and> create_lookup T (hd (addr_cols T addresses)) (addr_rows addresses)
                (enhanced_clean T (res_street_address v)) \<noteq> None)
    \<longrightarrow> returned (ultra_fast_geocode_county T rnd to_crs county_name voters addresses output_dir) = None
        \<and> written (ultra_fast_geocode_county T rnd to_crs county_name voters addresses output_dir) = []
        \<and> results (ultra_fast_geocode_county T rnd to_crs county_name voters addresses output_dir) = None)
   \<and> (returned (ultra_fast_geocode_county T rnd to_crs county_name voters addresses output_dir) \<noteq> None
    \<longrightarrow> addr_cols T addresses \<noteq> []
        \<and> (\<exists>v\<in>set voters. voter_status_desc v = Some (str ''ACTIVE'')
              \<and> create_lookup T (hd (addr_cols T addresses)) (addr_rows addresses)
                    (enhanced_clean T (res_street_address v)) \<noteq> None))"
proof (cases "addr_cols T addresses = []")
  case True
  then show ?thesis by (simp add: ultra_fast_geocode_county_def)
next
  case False
  let ?lk = "create_lookup T (hd (addr_cols T addresses)) (addr_rows addresses)"
  let ?hits = "filter (\<lambda>v. voter_status_desc v = Some (str ''ACTIVE'')
                  \<and> ?lk (enhanced_clean T (res_street_address v)) \<noteq> None) voters"
  have u: "ultra_fast_geocode_county T rnd to_crs county_name voters addresses output_dir
           = geocode_with_lookup T rnd to_crs county_name voters ?lk (addr_crs addresses) output_dir"
    using False by (simp add: ultra_fast_geocode_county_def Let_def)
  have e: "?hits = [] \<longleftrightarrow> \<not> (\<exists>v\<in>set voters. voter_status_desc v = Some (str ''ACTIVE'')
          \<and> ?lk (enhanced_clean T (res_street_address v)) \<noteq> None)"
    by (simp add: filter_empty_conv del: not_None_eq)
  show ?thesis
  proof (cases "?hits = []")
    case True
    then have "geocode_with_lookup T rnd to_crs county_name voters ?lk (addr_crs addresses) output_dir
               = \<lparr>returned = None, written = [], results = None\<rparr>"
      using geocode_with_lookup_cases[where lk = ?lk and voters = voters] by blast
    with True e u show ?thesis by simp
  next
    case nonempty: False
    then have "returned (geocode_with_lookup T rnd to_crs county_name voters ?lk (addr_crs addresses)
                           output_dir) \<noteq> None"
      using geocode_with_lookup_cases[where lk = ?lk and voters = voters] by blast
    with nonempty e u False show ?thesis by (simp del: not_None_eq)
  qed
qed

section \<open>Concrete runs of the normalizer and the geocoder\<close>

lemma str_inject [simp]: "str a = str b \<longleftrightarrow> a = b"
proof -
  have "inj (of_char :: char \<Rightarrow> nat)" by (rule inj_onI) simp
  then show ?thesis unfolding str_def by (simp add: inj_map_eq_map)
qed

lemma str_append: "str (a @ b) = str a @ str b"
  by (simp add: str_def)

lemma str_Nil [simp]: "str [] = []" "(str a = []) = (a = [])" "([] = str a) = (a = [])"
  by (auto simp: str_def)

lemmas clean_unfold =
  enhanced_clean_def strip_def upper_def sub_punct_def blank_def str_def
  replacements_def word_match_def at_boundary_def sub_word.simps(2) latin1_table_def
  ascii_isspace_def ascii_isword_def

lemma clean_oak_street:
  "enhanced_clean latin1_table (Some (str ''100 Oak Street'')) = str ''100 OAK ST''"
  by (simp add: clean_unfold)

lemma clean_oak_st:
  "enhanced_clean latin1_table (Some (str ''100 OAK ST.'')) = str ''100 OAK ST''"
  by (simp add: clean_unfold)

lemma clean_oak_lower:
  "enhanced_clean latin1_table (Some (str ''100 oak street'')) = str ''100 OAK ST''"
  by (simp add: clean_unfold)

lemma clean_elm: "enhanced_clean latin1_table (Some (str ''7 Elm Road'')) = str ''7 ELM RD''"
  by (simp add: clean_unfold)

lemma clean_missing: "enhanced_clean T None = []"
  by (simp add: enhanced_clean_def)

lemma clean_latin1:
  "enhanced_clean latin1_table (Some (str ''12'' @ [0xA0] @ str ''caf'' @ [0xE9, 0x20, 0xC9]
                                        @ str ''street, stra'' @ [0xDF] @ str ''e Street''))
   = str ''12 CAF'' @ [0xC9, 0x20, 0xC9] @ str ''STREET STRASSE ST''"
  by (simp add: clean_unfold)

lemmas sample_cleans = clean_oak_street clean_oak_st clean_oak_lower clean_elm clean_missing

lemma sample_addr_cols: "addr_cols latin1_table sample_addresses = [str ''FULL_ADDR'']"
  by (simp add: addr_cols_def sample_addresses_def upper_def latin1_table_def)
     (simp add: str_def)

theorem enhanced_clean_idempotent_witness:
  "table_ok latin1_table
   \<and> enhanced_clean latin1_table
        (Some (enhanced_clean latin1_table
                 (Some (str ''12'' @ [0xA0] @ str ''caf'' @ [0xE9, 0x20, 0xC9]
                          @ str ''street, stra'' @ [0xDF] @ str ''e Street''))))
      = str ''12 CAF'' @ [0xC9, 0x20, 0xC9] @ str ''STREET STRASSE ST''"
  using enhanced_clean_idempotent[OF latin1_table_ok,
          of "Some (str ''12'' @ [0xA0] @ str ''caf'' @ [0xE9, 0x20, 0xC9]
                      @ str ''street, stra'' @ [0xDF] @ str ''e Street'')"]
        latin1_table_ok
  by (simp only: clean_latin1 simp_thms)

theorem create_lookup_first_wins_witness:
  "create_lookup latin1_table (str ''FULL_ADDR'') (addr_rows sample_addresses) [] = None
   \<and> str ''100 OAK ST'' \<noteq> []
   \<and> create_lookup latin1_table (str ''FULL_ADDR'') (addr_rows sample_addresses)
        (str ''100 OAK ST'') = Some (100, 200)"
  using create_lookup_first_wins[of latin1_table "str ''FULL_ADDR''"
          "addr_rows sample_addresses" "str ''100 OAK ST''"]
  by (simp add: sample_addresses_def sample_cleans)

lemma sample_lookup_oak: "sample_lookup (str ''100 OAK ST'') = Some (100, 200)"
  by (simp add: sample_lookup_def create_lookup_get sample_addresses_def sample_cleans)

lemma sample_lookup_elm: "sample_lookup (str ''7 ELM RD'') = None"
  by (simp add: sample_lookup_def create_lookup_get sample_addresses_def sample_cleans)

lemma sample_rounding_ok: "rounding_ok sample_rounding"
proof -
  have "mono sample_rounding"
    unfolding sample_rounding_def
    by (intro monoI divide_right_mono) (auto intro!: floor_mono)
  then show ?thesis by (simp add: rounding_ok_def sample_rounding_def)
qed

lemma exact_ok: "rounding_ok exact"
  by (simp add: rounding_ok_def exact_def mono_def)

lemma sample_rate_third: "rate sample_rounding 1 3 = 8525 / 256"
  by (simp add: rate_def sample_rounding_def)

lemma sample_active:
  "clean_voters latin1_table (active_voters sample_voters)
   = [\<lparr>voter_row = \<lparr>voter_status_desc = Some (str ''ACTIVE''),
                         res_street_address = Some (str ''100 Oak Street''),
                         party_cd = Some (str ''DEM'')\<rparr>,
       clean_address = str ''100 OAK ST''\<rparr>,
      \<lparr>voter_row = \<lparr>voter_status_desc = Some (str ''ACTIVE''),
                         res_street_address = Some (str ''7 Elm Road''),
                         party_cd = Some (str ''UNA'')\<rparr>,
       clean_address = str ''7 ELM RD''\<rparr>]"
  by (simp add: sample_voters_def clean_voters_def active_voters_def sample_cleans)

lemma sample_match:
  "match_loop sample_lookup (clean_voters latin1_table (active_voters sample_voters)) ([], 0)
   = ([attrs sample_row], Suc 0)"
  by (simp add: sample_active sample_lookup_oak sample_lookup_elm sample_row_def)

lemma sample_geocode:
  "geocode_with_lookup latin1_table sample_rounding no_reprojection (str ''Pitt'') sample_voters
     sample_lookup ''EPSG:2264'' (str ''../outputs'')
   = \<lparr>returned = Some \<lparr>rows = [sample_row], crs = ''EPSG:2264''\<rparr>,
      written = [(str ''../outputs'', str ''pitt_voters_geocoded.gpkg'',
                  \<lparr>rows = [sample_row], crs = ''EPSG:2264''\<rparr>)],
      results = Some \<lparr>total_voters = 2, geocoded = 1, success_rate = 50\<rparr>\<rparr>"
proof -
  have l: "lower latin1_table (str ''Pitt'') @ str ''_voters_geocoded.gpkg''
           = str ''pitt_voters_geocoded.gpkg''"
    by (simp add: latin1_table_def str_def ascii_lower_def)
  have r: "rate sample_rounding (Suc 0) (Suc (Suc 0)) = 50"
    by (simp add: rate_def sample_rounding_def)
  show ?thesis
    using sample_match
    by (simp add: geocode_with_lookup_def sample_row_def sample_active l r Let_def)
qed

theorem geocode_output_exact_witness:
  "returned_rows (geocode_with_lookup latin1_table sample_rounding no_reprojection (str ''Pitt'')
                    sample_voters sample_lookup ''EPSG:2264'' (str ''../outputs''))
     = [sample_row]
   \<and> [voter_row (source (attrs sample_row))]
       = filter (\<lambda>v. voter_status_desc v = Some (str ''ACTIVE'')
                      \<and> sample_lookup (enhanced_clean latin1_table (res_street_address v)) \<noteq> None)
           sample_voters
   \<and> matched (attrs sample_row)
   \<and> sample_lookup (clean_address (source (attrs sample_row)))
       = Some (row_x (attrs sample_row), row_y (attrs sample_row))"
  using geocode_output_exact[of latin1_table sample_rounding no_reprojection "str ''Pitt''"
          sample_voters sample_lookup "''EPSG:2264''" "str ''../outputs''"]
  by (auto simp: sample_geocode returned_rows_def simp del: not_None_eq)

theorem geocode_count_and_rate_witness:
  "rounding_ok sample_rounding
   \<and> snd (match_loop sample_lookup (clean_voters latin1_table (active_voters sample_voters))
             ([], 0)) = 1
   \<and> length (filter (\<lambda>v. voter_status_desc v = Some (str ''ACTIVE'')) sample_voters) = 2
   \<and> results (geocode_with_lookup latin1_table sample_rounding no_reprojection (str ''Pitt'')
                 sample_voters sample_lookup ''EPSG:2264'' (str ''../outputs''))
       = Some \<lparr>total_voters = 2, geocoded = 1, success_rate = 50\<rparr>
   \<and> (50::real) = sample_rounding (sample_rounding (real 1 / real 2) * 100)
   \<and> (0::real) \<le> 50 \<and> (50::real) \<le> 100"
proof -
  let ?out = "geocode_with_lookup latin1_table sample_rounding no_reprojection (str ''Pitt'')
                 sample_voters sample_lookup ''EPSG:2264'' (str ''../outputs'')"
  have res: "results ?out = Some \<lparr>total_voters = 2, geocoded = 1, success_rate = 50\<rparr>"
    by (simp add: sample_geocode)
  have mc: "snd (match_loop sample_lookup (clean_voters latin1_table
                   (active_voters sample_voters)) ([], 0)) = 1"
    by (simp add: sample_match)
  have n: "length (filter (\<lambda>v. voter_status_desc v = Some (str ''ACTIVE'')) sample_voters) = 2"
    by (simp add: sample_voters_def)
  note t = geocode_count_and_rate[OF sample_rounding_ok, of sample_lookup latin1_table
             sample_voters 0 no_reprojection "str ''Pitt''" "''EPSG:2264''" "str ''../outputs''"]
  note t4 = t[THEN conjunct2, THEN conjunct2, THEN conjunct2, unfolded res option.case
              report.select_convs]
  have q: "(50::real) = sample_rounding (sample_rounding (real 1 / real 2) * 100)"
    using t4 by (elim conjE)
  have b: "(0::real) \<le> 50 \<and> (50::real) \<le> 100"
    using t4 by (elim conjE) (rule conjI)
  from sample_rounding_ok mc n res q b show ?thesis by (intro conjI) (elim conjE | assumption)+
qed

lemma sample_county:
  "ultra_fast_geocode_county latin1_table sample_rounding no_reprojection (str ''Pitt'')
     sample_voters sample_addresses (str ''../outputs'')
   = geocode_with_lookup latin1_table sample_rounding no_reprojection (str ''Pitt'')
       sample_voters sample_lookup ''EPSG:2264'' (str ''../outputs'')"
  by (simp add: ultra_fast_geocode_county_def sample_addr_cols sample_lookup_def Let_def)
     (simp add: sample_addresses_def)

theorem geocode_none_without_match_witness:
  "returned (ultra_fast_geocode_county latin1_table sample_rounding no_reprojection (str ''Pitt'')
               (tl sample_voters) sample_addresses (str ''../outputs'')) = None
   \<and> written (ultra_fast_geocode_county latin1_table sample_rounding no_reprojection
                (str ''Pitt'') (tl sample_voters) sample_addresses (str ''../outputs'')) = []
   \<and> returned (ultra_fast_geocode_county latin1_table sample_rounding no_reprojection
                 (str ''Pitt'') sample_voters sample_addresses (str ''../outputs'')) \<noteq> None
   \<and> (\<exists>v\<in>set sample_voters. voter_status_desc v = Some (str ''ACTIVE'')
         \<and> sample_lookup (enhanced_clean latin1_table (res_street_address v)) \<noteq> None)"
proof -
  have a: "\<not> (\<exists>v\<in>set (tl sample_voters). voter_status_desc v = Some (str ''ACTIVE'')
          \<and> create_lookup latin1_table (hd (addr_cols latin1_table sample_addresses))
                (addr_rows sample_addresses)
                (enhanced_clean latin1_table (res_street_address v)) \<noteq> None)"
    using sample_lookup_elm
    by (simp add: sample_addr_cols sample_voters_def sample_cleans sample_lookup_def)
  have b: "returned (ultra_fast_geocode_county latin1_table sample_rounding no_reprojection
                 (str ''Pitt'') sample_voters sample_addresses (str ''../outputs'')) \<noteq> None"
    by (simp add: sample_county sample_geocode)
  from a
    geocode_none_without_match[of "tl sample_voters" latin1_table sample_addresses
      sample_rounding no_reprojection "str ''Pitt''" "str ''../outputs''"]
  have 1: "returned (ultra_fast_geocode_county latin1_table sample_rounding no_reprojection
               (str ''Pitt'') (tl sample_voters) sample_addresses (str ''../outputs'')) = None
   \<and> written (ultra_fast_geocode_county latin1_table sample_rounding no_reprojection
                (str ''Pitt'') (tl sample_voters) sample_addresses (str ''../outputs'')) = []"
    by blast
  from b
    geocode_none_without_match[of sample_voters latin1_table sample_addresses
      sample_rounding no_reprojection "str ''Pitt''" "str ''../outputs''"]
  have 2: "\<exists>v\<in>set sample_voters. voter_status_desc v = Some (str ''ACTIVE'')
         \<and> sample_lookup (enhanced_clean latin1_table (res_street_address v)) \<noteq> None"
    by (simp add: sample_addr_cols sample_lookup_def del: not_None_eq)
  from 1 2 b show ?thesis by blast
qed

section \<open>The parcel join\<close>

lemma sjoin_hits_eq:
  "sjoin_hits w v i ps =
     map (\<lambda>(j, p). \<lparr>left_row = v, index_right = Some j, right_row = Some p\<rparr>)
       (filter (\<lambda>(j, p). w (geometry v) (parcel_geometry p)) (enumerate i ps))"
  by (induction ps arbitrary: i) auto

lemma sjoin_hits_empty:
  "sjoin_hits w v i ps = [] \<longleftrightarrow> \<not> (\<exists>p\<in>set ps. w (geometry v) (parcel_geometry p))"
  by (induction ps arbitrary: i) auto

lemma sjoin_left_eq:
  "sjoin_left w vs ps =
     concat (map (\<lambda>v. if \<exists>p\<in>set ps. w (geometry v) (parcel_geometry p)
                       then map (\<lambda>(j, p). \<lparr>left_row = v, index_right = Some j, right_row = Some p\<rparr>)
                              (filter (\<lambda>(j, p). w (geometry v) (parcel_geometry p))
                                 (enumerate 0 ps))
                       else [\<lparr>left_row = v, index_right = None, right_row = None\<rparr>]) vs)"
proof (induction vs)
  case Nil
  then show ?case by simp
next
  case (Cons v vs)
  show ?case
  proof (cases "\<exists>p\<in>set ps. w (geometry v) (parcel_geometry p)")
    case True
    then have "sjoin_hits w v 0 ps \<noteq> []" using sjoin_hits_empty[of w v 0 ps] by simp
    with True Cons show ?thesis by (simp add: Let_def sjoin_hits_eq)
  next
    case False
    then have "sjoin_hits w v 0 ps = []" using sjoin_hits_empty[of w v 0 ps] by simp
    with False Cons show ?thesis by (simp add: Let_def)
  qed
qed

text \<open>
  Claim C7. Whenever the parcel join returns, every row of its output (and of the dataset it
  writes) has the county field equal to the county name passed to the call, whatever the
  row's geometry and attributes.
\<close>

theorem spatial_join_county_stamp:
  assumes "spatial_join_county T w to_crs_point to_crs_geom county_name voters_in parcels_in
             output_dir = Inr res"
  shows "(\<forall>r\<in>set (joined res). county r = county_name)
         \<and> (\<forall>(d, f, rs)\<in>set (join_written res). \<forall>r\<in>set rs. county r = county_name)"
  using assms
  by (auto simp: spatial_join_county_def Let_def split: if_splits)

lemma sjoin_left_matched_count:
  "length (filter (\<lambda>r. index_right r \<noteq> None) (sjoin_left w vs ps))
   = sum_list (map (\<lambda>v. length (filter (\<lambda>p. w (geometry v) (parcel_geometry p)) ps)) vs)"
proof -
  have h: "length (filter (\<lambda>r. index_right r \<noteq> None) (sjoin_hits w v i ps))
           = length (filter (\<lambda>p. w (geometry v) (parcel_geometry p)) ps)" for v i
    by (induction ps arbitrary: i) (auto simp del: not_None_eq)
  have e: "sjoin_hits w v 0 ps = [] \<Longrightarrow>
           length (filter (\<lambda>p. w (geometry v) (parcel_geometry p)) ps) = 0" for v
    using h[of v 0] by (simp del: not_None_eq)
  show ?thesis
    by (induction vs) (auto simp: Let_def h e simp del: not_None_eq)
qed

lemma sjoin_left_covers: "v \<in> set vs \<Longrightarrow> \<exists>r\<in>set (sjoin_left w vs ps). left_row r = v"
proof (induction vs)
  case Nil
  then show ?case by simp
next
  case (Cons u vs)
  have hits: "\<forall>r\<in>set (sjoin_hits w u i ps). left_row r = u" for i
    by (induction ps arbitrary: i) auto
  show ?case
  proof (cases "v = u")
    case True
    show ?thesis
    proof (cases "sjoin_hits w u 0 ps")
      case Nil
      with True show ?thesis by (simp add: Let_def)
    next
      case (Cons r rs)
      then have "left_row r = u" using hits[of 0] by simp
      with True Cons show ?thesis by (auto simp: Let_def)
    qed
  next
    case False
    with Cons show ?thesis by (auto simp: Let_def)
  qed
qed

lemma sample_join:
  "spatial_join_county latin1_table within_rect no_reprojection no_reprojection_geom
       (str ''Pitt'') sample_frame
     sample_parcels (str ''../outputs'')
   = Inr \<lparr>joined =
            [\<lparr>joined_left = sample_row,
              joined_right = Some \<lparr>parcel_geometry = ((0, 0), (150, 250)), parval = Some 120000\<rparr>,
              county = str ''Pitt''\<rparr>,
             \<lparr>joined_left = sample_row,
              joined_right = Some \<lparr>parcel_geometry = ((50, 150), (400, 400)), parval = Some 90000\<rparr>,
              county = str ''Pitt''\<rparr>],
          join_written =
            [(str ''../outputs'', str ''pitt_voters_with_parcels.gpkg'',
              [\<lparr>joined_left = sample_row,
                joined_right = Some \<lparr>parcel_geometry = ((0, 0), (150, 250)), parval = Some 120000\<rparr>,
                county = str ''Pitt''\<rparr>,
               \<lparr>joined_left = sample_row,
                joined_right = Some \<lparr>parcel_geometry = ((50, 150), (400, 400)), parval = Some 90000\<rparr>,
                county = str ''Pitt''\<rparr>])],
          successful_joins = 2,
          join_rate = 200\<rparr>"
proof -
  have l: "lower latin1_table (str ''Pitt'') @ str ''_voters_with_parcels.gpkg''
           = str ''pitt_voters_with_parcels.gpkg''"
    by (simp add: latin1_table_def str_def ascii_lower_def)
  show ?thesis
    by (simp add: spatial_join_county_def sample_frame_def sample_parcels_def within_rect_def
        sample_row_def l Let_def)
qed

theorem spatial_join_county_stamp_witness:
  "(\<exists>res. spatial_join_county latin1_table within_rect no_reprojection no_reprojection_geom
       (str ''Pitt'')
            sample_frame sample_parcels (str ''../outputs'') = Inr res
          \<and> joined res \<noteq> []
          \<and> (\<forall>r\<in>set (joined res). county r = str ''Pitt''))"
proof -
  obtain res where r: "spatial_join_county latin1_table within_rect no_reprojection no_reprojection_geom
      (str ''Pitt'') sample_frame sample_parcels (str ''../outputs'') = Inr res" and n: "joined res \<noteq> []"
    using sample_join by simp
  from spatial_join_county_stamp[OF r] have "\<forall>r\<in>set (joined res). county r = str ''Pitt''"
    by blast
  with r n show ?thesis by blast
qed

text \<open>
  Claim C10. The left join emits one row per pair of a voter and a parcel that contains the
  voter's point, and one row with null parcel attributes for a voter that no parcel
  contains, so every voter has at least one row; the rows with a parcel are as many as
  these pairs. Consequently there is an input, a single voter strictly inside two
  overlapping parcels, on which the voter appears twice in the output and the reported join
  success rate is 200, above 100.
\<close>

theorem sjoin_one_row_per_pair:
  "sjoin_left w vs ps =
     concat (map (\<lambda>v. if \<exists>p\<in>set ps. w (geometry v) (parcel_geometry p)
                       then map (\<lambda>(j, p). \<lparr>left_row = v, index_right = Some j, right_row = Some p\<rparr>)
                              (filter (\<lambda>(j, p). w (geometry v) (parcel_geometry p))
                                 (enumerate 0 ps))
                       else [\<lparr>left_row = v, index_right = None, right_row = None\<rparr>]) vs)
   \<and> (\<forall>v\<in>set vs. \<exists>r\<in>set (sjoin_left w vs ps). left_row r = v)
   \<and> length (filter (\<lambda>r. index_right r \<noteq> None) (sjoin_left w vs ps))
       = sum_list (map (\<lambda>v. length (filter (\<lambda>p. w (geometry v) (parcel_geometry p)) ps)) vs)
   \<and> (\<exists>res. spatial_join_county latin1_table within_rect no_reprojection no_reprojection_geom
       (str ''Pitt'')
               sample_frame sample_parcels (str ''../outputs'') = Inr res
            \<and> rows sample_frame = [sample_row]
            \<and> length (filter (\<lambda>p. within_rect (geometry sample_row) (parcel_geometry p))
                        (parcels sample_parcels)) = 2
            \<and> map joined_left (joined res) = [sample_row, sample_row]
            \<and> successful_joins res = 2
            \<and> join_rate res = 200 \<and> join_rate res > 100)"
proof -
  have "\<exists>res. spatial_join_county latin1_table within_rect no_reprojection no_reprojection_geom
       (str ''Pitt'')
               sample_frame sample_parcels (str ''../outputs'') = Inr res
            \<and> rows sample_frame = [sample_row]
            \<and> length (filter (\<lambda>p. within_rect (geometry sample_row) (parcel_geometry p))
                        (parcels sample_parcels)) = 2
            \<and> map joined_left (joined res) = [sample_row, sample_row]
            \<and> successful_joins res = 2
            \<and> join_rate res = 200 \<and> join_rate res > 100"
    by (simp add: sample_join) (simp add: sample_frame_def sample_parcels_def within_rect_def
        sample_row_def)
  then show ?thesis
    using sjoin_left_eq[of w vs ps] sjoin_left_covers[of _ vs w ps]
      sjoin_left_matched_count[of w vs ps]
    by blast
qed

theorem sjoin_one_row_per_pair_witness:
  "(\<exists>p\<in>set (parcels sample_parcels). within_rect (geometry sample_row) (parcel_geometry p))
   \<and> sample_row \<in> set [sample_row]
   \<and> sjoin_left within_rect [sample_row] (parcels sample_parcels)
      = [\<lparr>left_row = sample_row, index_right = Some 0,
          right_row = Some \<lparr>parcel_geometry = ((0, 0), (150, 250)), parval = Some 120000\<rparr>\<rparr>,
         \<lparr>left_row = sample_row, index_right = Some 1,
          right_row = Some \<lparr>parcel_geometry = ((50, 150), (400, 400)), parval = Some 90000\<rparr>\<rparr>]
   \<and> length (filter (\<lambda>r. index_right r \<noteq> None)
               (sjoin_left within_rect [sample_row] (parcels sample_parcels))) = 2"
  using sjoin_one_row_per_pair[of within_rect "[sample_row]" "parcels sample_parcels"]
  by (simp add: sample_parcels_def within_rect_def sample_row_def enumerate_eq_zip upt_rec
      del: not_None_eq)

section \<open>Density tiers and registration periods\<close>

lemma loc_assign_length:
  "length (loc_assign sel v col) = min (length sel) (length col)"
  by (simp add: loc_assign_def)

lemma loc_assign_nth:
  "i < length sel \<Longrightarrow> i < length col \<Longrightarrow>
   loc_assign sel v col ! i = (if sel ! i then v else col ! i)"
  by (simp add: loc_assign_def)

lemma percentile_some: "a \<noteq> [] \<Longrightarrow> \<exists>t. percentile a q = Some t"
  by (simp add: percentile_def Let_def)

text \<open>
  Claim C8. Registration-period bucketing is total: it yields one category per row. A row
  whose date does not parse is "Unknown", a row with a parsed year is in exactly one of
  "Before 2000", "2000-2009", "2010-2019" and "2020-Present", by the year's range, and
  without the date column every row is "Unknown".
\<close>

theorem registration_period_buckets:
  "length (registration_period year_of n (Some dates)) = length dates
   \<and> (\<forall>i<length dates.
        registration_period year_of n (Some dates) ! i =
          (case year_of (dates ! i) of
             None \<Rightarrow> ''Unknown''
           | Some y \<Rightarrow> if y < 2000 then ''Before 2000''
                       else if y < 2010 then ''2000-2009''
                       else if y < 2020 then ''2010-2019''
                       else ''2020-Present''))
   \<and> registration_period year_of n None = replicate n ''Unknown''"
  by (auto simp: registration_period_def Let_def loc_assign_length loc_assign_nth
      year_lt_def year_ge_def split: option.splits)

theorem registration_period_buckets_witness:
  "(1::nat) < length [Some 1999, None, Some 2024 :: int option]
   \<and> registration_period (\<lambda>c. c) 3 (Some [Some 1999, None, Some 2024])
       = [''Before 2000'', ''Unknown'', ''2020-Present'']
   \<and> registration_period (\<lambda>c. c) 3 (Some [Some 1999, None, Some 2024]) ! 1 = ''Unknown''"
proof -
  have e: "registration_period (\<lambda>c. c) 3 (Some [Some 1999, None, Some 2024])
           = [''Before 2000'', ''Unknown'', ''2020-Present'']"
    by (simp add: registration_period_def Let_def loc_assign_def year_lt_def year_ge_def)
  have "(1::nat) < length [Some 1999, None, Some 2024 :: int option]" by simp
  with registration_period_buckets[of "\<lambda>c. c" 3 "[Some 1999, None, Some 2024]"]
  have "registration_period (\<lambda>c. c) 3 (Some [Some 1999, None, Some 2024]) ! 1 = ''Unknown''"
    by (auto simp del: nth_Cons_Suc)
  with e show ?thesis by simp
qed

lemma sample_scores: "density_scores [(0, 0), (100, 0), (50000, 0)] = [1, 1, 0]"
  by (simp add: density_scores_def neighbors_within_radius_def distances_def search_radius_def)

lemma single_scores: "density_scores [(0, 0)] = [0]"
  by (simp add: density_scores_def neighbors_within_radius_def distances_def search_radius_def)

text \<open>
  Claim C1 (as the code runs). Two voters geocoded to the same coordinate are at distance
  0 from each other; the script's test \<^verbatim>\<open>distances > 0\<close>, meant to leave out the point
  itself, leaves out the other voter too. The scores are 0 and 0, where the count of the
  other points within 2000 units is 1 for each.
\<close>

theorem density_scores_coincident_points:
  "density_scores [(0, 0), (0, 0)] = [0, 0]
   \<and> spec_density_score [(0, 0), (0, 0)] 0 = 1
   \<and> spec_density_score [(0, 0), (0, 0)] 1 = 1"
  by (simp add: density_scores_def neighbors_within_radius_def distances_def search_radius_def
      spec_density_score_def upt_rec)

text \<open>
  Claim C2 as stated fails: in a dataset of one voter the score 0 is at least the 75th
  percentile (0), yet the voter is classified Rural, not Urban.
\<close>

theorem urban_rural_counterexample:
  "percentile (map real (density_scores [(0, 0)])) 75 = Some 0
   \<and> real (density_scores [(0, 0)] ! 0) \<ge> 0
   \<and> analysis_1_urban_rural_classification [(0, 0)] = Some ([0], [''Rural''])
   \<and> ''Rural'' \<noteq> ''Urban''"
  by (simp add: single_scores analysis_1_urban_rural_classification_def percentile_def
      loc_assign_def Let_def)

text \<open>
  Claim C2, amended. On a non-empty dataset both thresholds exist and every point is
  classified: Rural when its score is at most the 25th percentile; otherwise Urban when its
  score is at least the 75th percentile; otherwise Suburban.
\<close>

theorem urban_rural_tiers:
  assumes "i < length coords"
  shows "\<exists>urban_threshold rural_threshold tiers.
           percentile (map real (density_scores coords)) 75 = Some urban_threshold
         \<and> percentile (map real (density_scores coords)) 25 = Some rural_threshold
         \<and> analysis_1_urban_rural_classification coords = Some (density_scores coords, tiers)
         \<and> length tiers = length coords
         \<and> tiers ! i =
             (if real (density_scores coords ! i) \<le> rural_threshold then ''Rural''
              else if real (density_scores coords ! i) \<ge> urban_threshold then ''Urban''
              else ''Suburban'')"
proof -
  let ?s = "density_scores coords"
  have len: "length ?s = length coords" by (simp add: density_scores_def)
  with assms have ne: "map real ?s \<noteq> []" by auto
  obtain ut where ut: "percentile (map real ?s) 75 = Some ut"
    using percentile_some[OF ne] by blast
  obtain rt where rt: "percentile (map real ?s) 25 = Some rt"
    using percentile_some[OF ne] by blast
  let ?col1 = "loc_assign (map (\<lambda>d. real d \<ge> ut) ?s) ''Urban''
                 (replicate (length coords) ''Suburban'')"
  let ?col2 = "loc_assign (map (\<lambda>d. real d \<le> rt) ?s) ''Rural'' ?col1"
  have a: "analysis_1_urban_rural_classification coords = Some (?s, ?col2)"
    by (simp add: analysis_1_urban_rural_classification_def Let_def ut rt)
  have l1: "length ?col1 = length coords" by (simp add: loc_assign_length len)
  have l2: "length ?col2 = length coords" by (simp add: loc_assign_length len)
  have n1: "?col1 ! i = (if real (?s ! i) \<ge> ut then ''Urban'' else ''Suburban'')"
    using assms len by (simp add: loc_assign_nth)
  have n2: "?col2 ! i = (if real (?s ! i) \<le> rt then ''Rural'' else ?col1 ! i)"
    using assms len l1 by (simp add: loc_assign_nth)
  show ?thesis using ut rt a l2 n1 n2 by auto
qed

theorem urban_rural_tiers_witness:
  "(0::nat) < length [(0, 0), (100, 0), (50000, 0) :: real \<times> real]
   \<and> percentile (map real (density_scores [(0, 0), (100, 0), (50000, 0)])) 75 = Some 1
   \<and> percentile (map real (density_scores [(0, 0), (100, 0), (50000, 0)])) 25 = Some (1 / 2)
   \<and> analysis_1_urban_rural_classification [(0, 0), (100, 0), (50000, 0)]
       = Some ([1, 1, 0], [''Urban'', ''Urban'', ''Rural''])
   \<and> (\<exists>tiers. analysis_1_urban_rural_classification [(0, 0), (100, 0), (50000, 0)]
                 = Some (density_scores [(0, 0), (100, 0), (50000, 0)], tiers)
             \<and> tiers ! 0 = ''Urban'')"
proof -
  have p75: "percentile (map real (density_scores [(0, 0), (100, 0), (50000, 0)])) 75 = Some 1"
    by (simp add: sample_scores percentile_def Let_def)
  have p25: "percentile (map real (density_scores [(0, 0), (100, 0), (50000, 0)])) 25
             = Some (1 / 2)"
    by (simp add: sample_scores percentile_def Let_def)
  have a: "analysis_1_urban_rural_classification [(0, 0), (100, 0), (50000, 0)]
           = Some ([1, 1, 0], [''Urban'', ''Urban'', ''Rural''])"
    using p75 p25
    by (simp add: analysis_1_urban_rural_classification_def Let_def loc_assign_def)
       (simp add: sample_scores)
  have h: "(0::nat) < length [(0, 0), (100, 0), (50000, 0) :: real \<times> real]" by simp
  from urban_rural_tiers[OF h] p75 p25
  have "\<exists>tiers. analysis_1_urban_rural_classification [(0, 0), (100, 0), (50000, 0)]
                 = Some (density_scores [(0, 0), (100, 0), (50000, 0)], tiers)
             \<and> tiers ! 0 = ''Urban''"
    by (auto simp: sample_scores)
  with h p75 p25 a show ?thesis by blast
qed

end
